theory Spec2Isabelle
  imports Main "HOL-Library.Sublist"
begin

section \<open>Text\<close>

text \<open>
  The script \<^verbatim>\<open>cli.js\<close> works on JavaScript strings and on file contents.  Both are
  modelled as HOL strings.  The model is meant for ASCII text, where UTF-16 code units
  and UTF-8 bytes coincide; the only line terminators of a regular expression's dot that
  can occur are then line feed and carriage return.
\<close>

definition LF :: char where
  "LF = CHR 0x0A"

definition CR :: char where
  "CR = CHR 0x0D"

definition backslash :: char where
  "backslash = CHR 0x5C"

definition isLineTerminator :: "char \<Rightarrow> bool" where
  "isLineTerminator c = (c = LF \<or> c = CR)"

text \<open>\<^verbatim>\<open>s.includes(t)\<close> and \<^verbatim>\<open>s.endsWith(t)\<close>.\<close>

definition includes_str :: "string \<Rightarrow> string \<Rightarrow> bool" where
  "includes_str s t = sublist t s"

definition endsWith :: "string \<Rightarrow> string \<Rightarrow> bool" where
  "endsWith s t = suffix t s"

text \<open>\<^verbatim>\<open>xs.join(sep)\<close> on an array of strings.\<close>

fun joinWith :: "string \<Rightarrow> string list \<Rightarrow> string" where
  "joinWith sep [] = []"
| "joinWith sep [x] = x"
| "joinWith sep (x # y # zs) = x @ sep @ joinWith sep (y # zs)"

section \<open>The path module of Node (POSIX flavour)\<close>

text \<open>
  \<^verbatim>\<open>path.join\<close> and \<^verbatim>\<open>path.resolve\<close> belong to the runtime, not to the repository.
  They are modelled after their POSIX implementation: a path is cut at the slashes, empty
  segments and \<^verbatim>\<open>.\<close> are dropped, \<^verbatim>\<open>..\<close> removes the segment before it, and above the
  start of a relative path \<^verbatim>\<open>..\<close> is kept.
\<close>

type_synonym path = string

fun splitOn :: "char \<Rightarrow> string \<Rightarrow> string list" where
  "splitOn sep [] = [[]]"
| "splitOn sep (c # cs) =
     (if c = sep then [] # splitOn sep cs
      else (case splitOn sep cs of
              [] \<Rightarrow> [[c]]
            | w # ws \<Rightarrow> (c # w) # ws))"

definition normStep :: "bool \<Rightarrow> string list \<Rightarrow> string \<Rightarrow> string list" where
  "normStep allowAboveRoot res seg =
     (if seg = [] \<or> seg = ''.'' then res
      else if seg = ''..'' then
        (if res \<noteq> [] \<and> last res \<noteq> ''..'' then butlast res
         else if allowAboveRoot then res @ [''..'']
         else res)
      else res @ [seg])"

definition normalizeString :: "string \<Rightarrow> bool \<Rightarrow> string" where
  "normalizeString p allowAboveRoot =
     joinWith ''/'' (foldl (normStep allowAboveRoot) [] (splitOn CHR ''/'' p))"

definition isAbsolute :: "path \<Rightarrow> bool" where
  "isAbsolute p = (case p of [] \<Rightarrow> False | c # _ \<Rightarrow> c = CHR ''/'')"

definition path_normalize :: "path \<Rightarrow> path" where
  "path_normalize p =
     (if p = [] then ''.''
      else
        (let trailingSeparator = (last p = CHR ''/'');
             n = normalizeString p (\<not> isAbsolute p)
         in if n = [] then
              (if isAbsolute p then ''/''
               else if trailingSeparator then ''./'' else ''.'')
            else
              (let n' = (if trailingSeparator then n @ ''/'' else n)
               in if isAbsolute p then ''/'' @ n' else n')))"

definition path_join :: "string list \<Rightarrow> path" where
  "path_join args =
     (let joined = joinWith ''/'' (filter (\<lambda>a. a \<noteq> []) args)
      in if joined = [] then ''.'' else path_normalize joined)"

text \<open>
  \<^verbatim>\<open>path.resolve\<close> walks its arguments from the right, the working directory last,
  until the path built so far is absolute.  The first argument of \<open>resolveLoop\<close> is that
  sequence, rightmost argument first.
\<close>

fun resolveLoop :: "string list \<Rightarrow> string \<Rightarrow> string \<times> bool" where
  "resolveLoop [] acc = (acc, False)"
| "resolveLoop (p # ps) acc =
     (if p = [] then resolveLoop ps acc
      else if isAbsolute p then (p @ ''/'' @ acc, True)
      else resolveLoop ps (p @ ''/'' @ acc))"

definition path_resolve :: "path \<Rightarrow> string list \<Rightarrow> path" where
  "path_resolve cwd args =
     (case resolveLoop (rev args @ [cwd]) [] of
        (resolvedPath, resolvedAbsolute) \<Rightarrow>
          (let n = normalizeString resolvedPath (\<not> resolvedAbsolute)
           in if resolvedAbsolute then ''/'' @ n
              else if n \<noteq> [] then n else ''.''))"

section \<open>Command line and output directory (cli.js, lines 17 to 28)\<close>

text \<open>
  \<^verbatim>\<open>getArg\<close> returns \<^verbatim>\<open>null\<close> when the flag is absent, the next element of
  \<^verbatim>\<open>process.argv\<close> when there is one, and \<^verbatim>\<open>undefined\<close> when the flag is the last
  element (an array read past its end).
\<close>

datatype jsval = Null | Undefined | Str string

fun indexOf :: "string list \<Rightarrow> string \<Rightarrow> int" where
  "indexOf [] a = -1"
| "indexOf (x # xs) a =
     (if x = a then 0
      else (let i = indexOf xs a in if i = -1 then -1 else i + 1))"

definition getArg :: "string list \<Rightarrow> string \<Rightarrow> jsval" where
  "getArg argv argName =
     (let argIndex = indexOf argv argName
      in if argIndex \<noteq> -1 then
           (if nat (argIndex + 1) < length argv then Str (argv ! nat (argIndex + 1))
            else Undefined)
         else Null)"

text \<open>\<^verbatim>\<open>process.argv[i]\<close>.\<close>

definition argvAt :: "string list \<Rightarrow> nat \<Rightarrow> jsval" where
  "argvAt argv i = (if i < length argv then Str (argv ! i) else Undefined)"

fun truthy :: "jsval \<Rightarrow> bool" where
  "truthy Null = False"
| "truthy Undefined = False"
| "truthy (Str s) = (s \<noteq> [])"

text \<open>
  Exceptions of the script.  \<open>TypeError\<close> is what \<^verbatim>\<open>path.resolve\<close> throws for an
  argument that is not a string, \<open>ModuleError\<close> what \<^verbatim>\<open>require\<close> throws, the file system
  errors are those of \<^verbatim>\<open>fs\<close>, and \<open>EngineError\<close> and \<open>RegExpError\<close> carry whatever the
  declaration engine and the regular expression engine throw.
\<close>

datatype error =
    TypeError
  | ModuleError
  | ENOENT path
  | EISDIR path
  | EngineError string
  | RegExpError string

text \<open>
  \<^verbatim>\<open>const [nodeModules] = findNodeModules(...)\<close>: the first element of the list the
  library returns, or \<^verbatim>\<open>undefined\<close> for the empty list.  With no usable
  \<^verbatim>\<open>--outputDir\<close> value, \<^verbatim>\<open>path.resolve(undefined, ...)\<close> throws.
\<close>

definition outputDirOf :: "path \<Rightarrow> string list \<Rightarrow> path list \<Rightarrow> error + path" where
  "outputDirOf cwd argv found =
     (let outDirArg = getArg argv ''--outputDir''
      in if truthy outDirArg then
           (case outDirArg of
              Str s \<Rightarrow> Inr (path_resolve cwd [''./'', s])
            | _ \<Rightarrow> Inl TypeError)
         else
           (case found of
              [] \<Rightarrow> Inl TypeError
            | nodeModules # _ \<Rightarrow> Inr (path_resolve cwd [nodeModules, ''@types/__federated_types/''])))"

section \<open>Manifest search (cli.js, lines 30 to 47)\<close>

text \<open>
  The directory below the working directory, as \<^verbatim>\<open>readdirSync\<close> and \<^verbatim>\<open>statSync\<close>
  show it: a directory lists its entries by name, in the order \<^verbatim>\<open>readdirSync\<close> returns
  them.  Symbolic links and unreadable entries are outside the model.
\<close>

datatype node = File | Dir "(string \<times> node) list"

fun isDirectory :: "node \<Rightarrow> bool" where
  "isDirectory File = False"
| "isDirectory (Dir _) = True"

text \<open>
  The first loop of \<^verbatim>\<open>findFederationConfig\<close>: it returns at an entry named
  \<^verbatim>\<open>federation.config.json\<close>, and otherwise queues the directories whose path does not
  contain \<^verbatim>\<open>node_modules\<close>.  A queue entry carries the directory itself next to its
  path, in place of the second \<^verbatim>\<open>readdirSync\<close>.
\<close>

fun scanEntries ::
  "path \<Rightarrow> path \<Rightarrow> (string \<times> node) list \<Rightarrow> (path \<times> node) list \<Rightarrow> path + (path \<times> node) list"
where
  "scanEntries cwd base [] queue = Inr queue"
| "scanEntries cwd base ((file, n) # files) queue =
     (let newBase = path_join [base, file]
      in if file = ''federation.config.json'' then Inl (path_resolve cwd [''./'', newBase])
         else if isDirectory n \<and> \<not> includes_str newBase ''node_modules''
         then scanEntries cwd base files (queue @ [(newBase, n)])
         else scanEntries cwd base files queue)"

lemma scanEntries_queue:
  "scanEntries cwd base files queue = Inr q \<Longrightarrow> (b, n) \<in> set q \<Longrightarrow>
     (b, n) \<in> set queue \<or> (\<exists>f. (f, n) \<in> set files)"
proof (induction files arbitrary: queue)
  case Nil
  then show ?case by simp
next
  case (Cons e files)
  obtain f m where e: "e = (f, m)" by (cases e)
  show ?case
  proof (cases "f = ''federation.config.json''")
    case True
    with Cons.prems show ?thesis by (simp add: e)
  next
    case False
    show ?thesis
    proof (cases "isDirectory m \<and> \<not> includes_str (path_join [base, f]) ''node_modules''")
      case True
      with False Cons.prems have "scanEntries cwd base files (queue @ [(path_join [base, f], m)]) = Inr q"
        by (simp add: e Let_def)
      from Cons.IH [OF this Cons.prems(2)] show ?thesis by (auto simp: e)
    next
      case no: False
      with False Cons.prems have "scanEntries cwd base files queue = Inr q"
        by (auto simp: e Let_def)
      from Cons.IH [OF this Cons.prems(2)] show ?thesis by (auto simp: e)
    qed
  qed
qed

lemma size_child: "(f, n) \<in> set files \<Longrightarrow> size n < size (Dir files)"
  by (induction files) auto

text \<open>
  The second loop returns in its first iteration, so only the head of the queue is ever
  searched; \<^verbatim>\<open>undefined\<close> is \<open>None\<close>.  The queue holds directories only, so the
  equation for a file at its head is never used.
\<close>

function findFederationConfig :: "path \<Rightarrow> path \<Rightarrow> (string \<times> node) list \<Rightarrow> path option" where
  "findFederationConfig cwd base files =
     (case scanEntries cwd base files [] of
        Inl found \<Rightarrow> Some found
      | Inr [] \<Rightarrow> None
      | Inr ((b, File) # _) \<Rightarrow> None
      | Inr ((b, Dir sub) # _) \<Rightarrow> findFederationConfig cwd b sub)"
  by pat_completeness auto
termination
proof (relation "measure (\<lambda>(cwd, base, files). size (Dir files))", goal_cases)
  case 1
  show ?case by simp
next
  case (2 cwd base files q e rest b n sub)
  then have "(b, Dir sub) \<in> set q" by simp
  with 2 scanEntries_queue [of cwd base files "[]" q b "Dir sub"]
  obtain f where "(f, Dir sub) \<in> set files" by auto
  then show ?case using size_child [of f "Dir sub" files] by simp
qed

declare findFederationConfig.simps [simp del]

text \<open>
  The test of line 39, on an entry of the directory at \<open>base\<close>: a directory whose path
  does not contain \<^verbatim>\<open>node_modules\<close> is queued.
\<close>

definition queued :: "path \<Rightarrow> string \<times> node \<Rightarrow> bool" where
  "queued base e =
     (isDirectory (snd e) \<and> \<not> includes_str (path_join [base, fst e]) ''node_modules'')"

text \<open>A tree holds a manifest when some entry at any depth has the manifest's name.\<close>

fun manifestIn :: "node \<Rightarrow> bool" where
  "manifestIn File = False"
| "manifestIn (Dir entries) =
     (\<exists>e \<in> set entries. fst e = ''federation.config.json'' \<or> manifestIn (snd e))"

section \<open>The manifest (cli.js, lines 58 to 66)\<close>

text \<open>
  The object loaded from \<^verbatim>\<open>federation.config.json\<close>.  \<open>exposes\<close> lists the properties
  of the \<^verbatim>\<open>exposes\<close> object in the order \<^verbatim>\<open>Object.keys\<close> enumerates them; the keys of an
  object are distinct, and both keys and values are strings.
\<close>

record federationConfig =
  name :: string
  exposes :: "(string \<times> string) list"

definition compileFiles :: "federationConfig \<Rightarrow> string list" where
  "compileFiles cfg = map snd (exposes cfg)"

definition compileKeys :: "federationConfig \<Rightarrow> string list" where
  "compileKeys cfg = map fst (exposes cfg)"

definition getModuleDeclareName :: "federationConfig \<Rightarrow> string \<Rightarrow> string" where
  "getModuleDeclareName cfg exposeName =
     map (\<lambda>c. if c = backslash \<or> c = CHR ''/'' then CHR ''/'' else c)
       (path_join [name cfg, exposeName])"

text \<open>
  How the object comes out of the manifest file.  \<^verbatim>\<open>require\<close> parses the JSON text and
  defines the properties of \<^verbatim>\<open>exposes\<close> one after the other, as they are written; a key
  written again keeps its place and takes the later value.  \<^verbatim>\<open>Object.keys\<close> and
  \<^verbatim>\<open>Object.values\<close> then enumerate the keys that are array indices (canonical decimal
  numerals below \<open>2\<^sup>3\<^sup>2 - 1\<close>) in ascending numeric order first, and the other keys in the
  order of their definition after them.  This belongs to the runtime; \<open>loadManifest\<close> is
  the object for a manifest with the given name and the given entries as written.
\<close>

definition digitValue :: "char \<Rightarrow> int" where
  "digitValue c = int (length (takeWhile (\<lambda>d. d \<noteq> c) ''0123456789''))"

definition indexValue :: "string \<Rightarrow> int" where
  "indexValue s = foldl (\<lambda>n c. 10 * n + digitValue c) 0 s"

definition isArrayIndex :: "string \<Rightarrow> bool" where
  "isArrayIndex s =
     (case s of
        [] \<Rightarrow> False
      | c # cs \<Rightarrow>
          list_all (\<lambda>d. d \<in> set ''0123456789'') s
          \<and> (c \<noteq> CHR ''0'' \<or> cs = [])
          \<and> indexValue s < 4294967295)"

fun defineProperty :: "(string \<times> string) list \<Rightarrow> string \<times> string \<Rightarrow> (string \<times> string) list" where
  "defineProperty [] (k, v) = [(k, v)]"
| "defineProperty ((k', v') # props) (k, v) =
     (if k' = k then (k, v) # props else (k', v') # defineProperty props (k, v))"

definition ownProperties :: "(string \<times> string) list \<Rightarrow> (string \<times> string) list" where
  "ownProperties written = foldl defineProperty [] written"

definition ownPropertyOrder :: "(string \<times> string) list \<Rightarrow> (string \<times> string) list" where
  "ownPropertyOrder props =
     sort_key (\<lambda>e. indexValue (fst e)) (filter (\<lambda>e. isArrayIndex (fst e)) props)
     @ filter (\<lambda>e. \<not> isArrayIndex (fst e)) props"

definition loadManifest :: "string \<Rightarrow> (string \<times> string) list \<Rightarrow> federationConfig" where
  "loadManifest nm written = \<lparr>name = nm, exposes = ownPropertyOrder (ownProperties written)\<rparr>"

section \<open>Regular expressions of the rewriter\<close>

definition dq :: char where
  "dq = CHR 0x22"

definition sq :: char where
  "sq = CHR 0x27"

subsection \<open>The module scan (cli.js, lines 93 to 98)\<close>

definition declarePrefix :: string where
  \<open>declarePrefix = ''declare module "''\<close>

text \<open>
  One attempt of \<^verbatim>\<open>/declare module "(.*)"/\<close> at the start of \<open>s\<close>.  The dot stops at a
  line terminator and the star is greedy, so the capture runs to the last double quote of
  the line.  The result is the capture and the length of the whole match.
\<close>

definition lastQuote :: "string \<Rightarrow> nat option" where
  "lastQuote line =
     (if dq \<in> set line
      then Some (length line - 1 - length (takeWhile (\<lambda>c. c \<noteq> dq) (rev line)))
      else None)"

definition matchModule :: "string \<Rightarrow> (string \<times> nat) option" where
  "matchModule s =
     (if prefix declarePrefix s then
        (let line = takeWhile (\<lambda>c. \<not> isLineTerminator c) (drop (length declarePrefix) s)
         in case lastQuote line of
              None \<Rightarrow> None
            | Some k \<Rightarrow> Some (take k line, length declarePrefix + k + 1))
      else None)"

lemma matchModule_consumes: "matchModule s = Some (cap, n) \<Longrightarrow> 0 < n"
  by (auto simp: matchModule_def Let_def split: if_splits option.splits)

text \<open>
  The \<^verbatim>\<open>exec\<close> loop: the leftmost match from \<^verbatim>\<open>lastIndex\<close> on, its capture pushed, and
  the search resumed behind the match.  Every match pushes; nothing is removed.
\<close>

function moduleNames :: "string \<Rightarrow> string list" where
  "moduleNames [] = []"
| "moduleNames (c # cs) =
     (case matchModule (c # cs) of
        Some (cap, n) \<Rightarrow> cap # moduleNames (drop n (c # cs))
      | None \<Rightarrow> moduleNames cs)"
  by pat_completeness auto
termination
  by (relation "measure length") (auto dest: matchModule_consumes)

declare moduleNames.simps [simp del]

subsection \<open>The replacement (cli.js, lines 103 and 115)\<close>

text \<open>
  \<^verbatim>\<open>RegExp(`"${name}"`, 'g')\<close> reads the module identifier as a pattern: nothing escapes
  its characters.  The model covers the patterns made of ordinary characters, dots, and
  character classes \<^verbatim>\<open>[...]\<close> that list their members one by one (no range, negation or
  escape).  \<open>compilePattern\<close> gives \<open>None\<close> for every other pattern, whose meaning is left
  to the regular expression engine of the runtime (a parameter of the rewriter below).
\<close>

datatype atom = Lit char | AnyChar | OneOf string

definition syntaxCharacter :: "char \<Rightarrow> bool" where
  "syntaxCharacter c = (c \<in> set ''^$.*+?()[]{}|'' \<or> c = backslash)"

text \<open>
  The first argument of \<open>compileFrom\<close> holds the members read so far while the scan is
  inside a character class.
\<close>

fun compileFrom :: "string option \<Rightarrow> string \<Rightarrow> atom list option" where
  "compileFrom None [] = Some []"
| "compileFrom None (c # cs) =
     (if c = CHR ''.'' then map_option (Cons AnyChar) (compileFrom None cs)
      else if c = CHR ''['' then compileFrom (Some []) cs
      else if syntaxCharacter c then None
      else map_option (Cons (Lit c)) (compileFrom None cs))"
| "compileFrom (Some members) [] = None"
| "compileFrom (Some members) (c # cs) =
     (if c = CHR '']'' then map_option (Cons (OneOf members)) (compileFrom None cs)
      else if c = backslash \<or> c = CHR ''-'' \<or> c = CHR ''^'' then None
      else compileFrom (Some (members @ [c])) cs)"

definition compilePattern :: "string \<Rightarrow> atom list option" where
  "compilePattern src = compileFrom None src"

fun matchAtom :: "atom \<Rightarrow> char \<Rightarrow> bool" where
  "matchAtom (Lit a) c = (a = c)"
| "matchAtom AnyChar c = (\<not> isLineTerminator c)"
| "matchAtom (OneOf members) c = (c \<in> set members)"

fun matchesAt :: "atom list \<Rightarrow> string \<Rightarrow> bool" where
  "matchesAt [] s = True"
| "matchesAt (a # as) [] = False"
| "matchesAt (a # as) (c # cs) = (matchAtom a c \<and> matchesAt as cs)"

text \<open>
  The replacement text of \<^verbatim>\<open>String.prototype.replace\<close>: \<^verbatim>\<open>$$\<close> is a dollar sign,
  \<^verbatim>\<open>$&\<close> the match, \<^verbatim>\<open>$`\<close> the text before it and \<^verbatim>\<open>$'\<close> the text after it.  The
  patterns of the model have no groups, so every other dollar sign stands for itself.
\<close>

fun getSubstitution :: "string \<Rightarrow> string \<Rightarrow> string \<Rightarrow> string \<Rightarrow> string" where
  "getSubstitution matched preceding following [] = []"
| "getSubstitution matched preceding following [c] = [c]"
| "getSubstitution matched preceding following (c # d # r) =
     (if c = CHR ''$'' \<and> d = CHR ''$'' then CHR ''$'' # getSubstitution matched preceding following r
      else if c = CHR ''$'' \<and> d = CHR ''&'' then matched @ getSubstitution matched preceding following r
      else if c = CHR ''$'' \<and> d = CHR 0x60 then preceding @ getSubstitution matched preceding following r
      else if c = CHR ''$'' \<and> d = sq then following @ getSubstitution matched preceding following r
      else c # getSubstitution matched preceding following (d # r))"

lemma matchesAt_length: "matchesAt pat s \<Longrightarrow> length pat \<le> length s"
  by (induction pat s rule: matchesAt.induct) auto

text \<open>
  A global replace: matches are taken from left to right and do not overlap; after an
  empty match the scan moves on by one character.
\<close>

function replaceLoop :: "atom list \<Rightarrow> string \<Rightarrow> string \<Rightarrow> string \<Rightarrow> string" where
  "replaceLoop pat template preceding s =
     (if matchesAt pat s then
        getSubstitution (take (length pat) s) preceding (drop (length pat) s) template @
          (if pat = [] then
             (case s of
                [] \<Rightarrow> []
              | c # cs \<Rightarrow> c # replaceLoop pat template (preceding @ [c]) cs)
           else replaceLoop pat template (preceding @ take (length pat) s) (drop (length pat) s))
      else
        (case s of
           [] \<Rightarrow> []
         | c # cs \<Rightarrow> c # replaceLoop pat template (preceding @ [c]) cs))"
  by pat_completeness auto
termination
proof (relation "measure (\<lambda>(pat, template, preceding, s). length s)", goal_cases)
  case 1
  show ?case by simp
next
  case (2 pat template preceding s c cs)
  then show ?case by simp
next
  case (3 pat template preceding s)
  then have "length pat \<le> length s" and "0 < length pat"
    by (auto dest: matchesAt_length)
  then have "length s - length pat < length s"
    by arith
  then show ?case by simp
next
  case (4 pat template preceding s c cs)
  then show ?case by simp
qed

declare replaceLoop.simps [simp del]

text \<open>
  \<^verbatim>\<open>typing.replace(regex, replacement)\<close> for the pattern source \<open>src\<close>; \<open>other\<close> is the
  runtime's answer for the patterns the model does not read: the new text, or the
  exception thrown.
\<close>

definition replaceRegExp ::
  "(string \<Rightarrow> string \<Rightarrow> string \<Rightarrow> error + string) \<Rightarrow> string \<Rightarrow> string \<Rightarrow> string \<Rightarrow> error + string"
where
  "replaceRegExp other src template s =
     (case compilePattern src of
        Some pat \<Rightarrow> Inr (replaceLoop pat template [] s)
      | None \<Rightarrow> other src template s)"

section \<open>The identifier rewriter (cli.js, lines 100 to 118)\<close>

text \<open>
  \<^verbatim>\<open>compileKeys.filter(key => federationConfig.exposes[key].endsWith(name))\<close>.  Every key
  comes from the object itself, so the property read finds a string.
\<close>

definition matchingKeys :: "federationConfig \<Rightarrow> string \<Rightarrow> string list" where
  "matchingKeys cfg modName =
     filter (\<lambda>key. case map_of (exposes cfg) key of
                      Some src \<Rightarrow> endsWith src modName
                    | None \<Rightarrow> False)
       (compileKeys cfg)"

text \<open>The destructuring \<^verbatim>\<open>const [exposeName = name, ...aliases] = ...\<close>.\<close>

definition exposeNameOf :: "federationConfig \<Rightarrow> string \<Rightarrow> string" where
  "exposeNameOf cfg modName =
     (case matchingKeys cfg modName of
        [] \<Rightarrow> modName
      | key # _ \<Rightarrow> key)"

definition aliasesOf :: "federationConfig \<Rightarrow> string \<Rightarrow> string list" where
  "aliasesOf cfg modName =
     (case matchingKeys cfg modName of
        [] \<Rightarrow> []
      | _ # rest \<Rightarrow> rest)"

definition indent :: "nat \<Rightarrow> string" where
  "indent n = replicate n CHR '' ''"

definition createAliasModule :: "federationConfig \<Rightarrow> string \<Rightarrow> string \<Rightarrow> string" where
  \<open>createAliasModule cfg moduleDeclareName alias =
     [LF] @ indent 12 @ ''declare module "'' @ getModuleDeclareName cfg alias @ ''" {'' @
     [LF] @ indent 16 @ ''export * from "'' @ moduleDeclareName @ ''"'' @
     [LF] @ indent 12 @ ''}'' @
     [LF] @ indent 8\<close>

definition rewriteModule ::
  "(string \<Rightarrow> string \<Rightarrow> string \<Rightarrow> error + string) \<Rightarrow> federationConfig \<Rightarrow> string \<Rightarrow> string \<Rightarrow> error + string"
where
  "rewriteModule other cfg typing modName =
     (let exposeName = exposeNameOf cfg modName;
          aliases = aliasesOf cfg modName;
          moduleDeclareName = getModuleDeclareName cfg exposeName
      in case replaceRegExp other ([dq] @ modName @ [dq]) ([dq] @ moduleDeclareName @ [dq]) typing of
           Inl e \<Rightarrow> Inl e
         | Inr replaced \<Rightarrow>
             Inr (joinWith [LF] (replaced # map (createAliasModule cfg moduleDeclareName) aliases)))"

text \<open>\<^verbatim>\<open>moduleNames.forEach\<close>, the text threaded through; an exception ends the loop.\<close>

fun forEachModule ::
  "(string \<Rightarrow> string \<Rightarrow> string \<Rightarrow> error + string) \<Rightarrow> federationConfig \<Rightarrow> string \<Rightarrow> string list \<Rightarrow> error + string"
where
  "forEachModule other cfg typing [] = Inr typing"
| "forEachModule other cfg typing (modName # rest) =
     (case rewriteModule other cfg typing modName of
        Inl e \<Rightarrow> Inl e
      | Inr typing' \<Rightarrow> forEachModule other cfg typing' rest)"

definition rewriteTyping ::
  "(string \<Rightarrow> string \<Rightarrow> string \<Rightarrow> error + string) \<Rightarrow> federationConfig \<Rightarrow> string \<Rightarrow> error + string"
where
  "rewriteTyping other cfg typing = forEachModule other cfg typing (moduleNames typing)"

section \<open>The file system\<close>

text \<open>
  The files the script reaches through absolute paths: a path names a file with its
  contents, a directory, or nothing.  A write needs the directory of the file to exist.
\<close>

datatype entry = FileE string | DirE

type_synonym filesystem = "path \<Rightarrow> entry option"

definition existsSync :: "filesystem \<Rightarrow> path \<Rightarrow> bool" where
  "existsSync fs p = (fs p \<noteq> None)"

definition unlinkSync :: "filesystem \<Rightarrow> path \<Rightarrow> error + filesystem" where
  "unlinkSync fs p =
     (case fs p of
        None \<Rightarrow> Inl (ENOENT p)
      | Some DirE \<Rightarrow> Inl (EISDIR p)
      | Some (FileE _) \<Rightarrow> Inr (fs(p := None)))"

definition readFileSync :: "filesystem \<Rightarrow> path \<Rightarrow> error + string" where
  "readFileSync fs p =
     (case fs p of
        None \<Rightarrow> Inl (ENOENT p)
      | Some DirE \<Rightarrow> Inl (EISDIR p)
      | Some (FileE contents) \<Rightarrow> Inr contents)"

definition dirname :: "path \<Rightarrow> path" where
  "dirname p =
     (let d = rev (drop 1 (dropWhile (\<lambda>c. c \<noteq> CHR ''/'') (rev p)))
      in if d = [] then (if isAbsolute p then ''/'' else ''.'') else d)"

definition writeFileSync :: "filesystem \<Rightarrow> path \<Rightarrow> string \<Rightarrow> error + filesystem" where
  "writeFileSync fs p contents =
     (if fs p = Some DirE then Inl (EISDIR p)
      else if fs (dirname p) \<noteq> Some DirE then Inl (ENOENT p)
      else Inr (fs(p \<mapsto> FileE contents)))"

definition copyFileSync :: "filesystem \<Rightarrow> path \<Rightarrow> path \<Rightarrow> error + filesystem" where
  "copyFileSync fs src dest =
     (case readFileSync fs src of
        Inl e \<Rightarrow> Inl e
      | Inr contents \<Rightarrow> writeFileSync fs dest contents)"

section \<open>The declaration engine\<close>

text \<open>
  \<^verbatim>\<open>ts.createProgram(...)\<close> followed by \<^verbatim>\<open>program.emit()\<close> is the work of the TypeScript
  compiler, which is not part of the repository: it is a parameter of the model.  Given the
  root files, the output file and the file system, the engine either throws or returns
  \<^verbatim>\<open>emitSkipped\<close> and its diagnostics; in both cases it leaves a file system behind.
\<close>

record diagnostic =
  code :: nat
  messageText :: string

datatype engineResult =
    EngineThrows error filesystem
  | EngineReturns bool "diagnostic list" filesystem

type_synonym engine = "string list \<Rightarrow> path \<Rightarrow> filesystem \<Rightarrow> engineResult"

text \<open>The file system the engine leaves behind.\<close>

fun engineFs :: "engineResult \<Rightarrow> filesystem" where
  "engineFs (EngineThrows e fs) = fs"
| "engineFs (EngineReturns emitSkipped diagnostics fs) = fs"

fun showNat :: "nat \<Rightarrow> string" where
  "showNat n =
     (if n < 10 then [char_of (48 + n)]
      else showNat (n div 10) @ [char_of (48 + n mod 10)])"

declare showNat.simps [simp del]

definition reportDiagnostic :: "diagnostic \<Rightarrow> string" where
  "reportDiagnostic d = ''TS Error '' @ showNat (code d) @ '' : '' @ messageText d"

section \<open>Publishing (cli.js, lines 120 to 153)\<close>

text \<open>
  Each step returns the lines it logs and either the exception it throws or the file
  system it leaves.
\<close>

definition packageJsonStep ::
  "path \<Rightarrow> path \<Rightarrow> path \<Rightarrow> filesystem \<Rightarrow> string list \<times> (error + filesystem)"
where
  "packageJsonStep cwd scriptDir outputDir fs =
     (if includes_str outputDir (path_join [''node_modules'', ''@types'']) then
        (let packageJsonPath = path_resolve cwd [outputDir, ''package.json'']
         in if \<not> existsSync fs packageJsonPath then
              ([''writing package.json: '' @ packageJsonPath],
               copyFileSync fs (path_resolve cwd [scriptDir, ''typings.package.tmpl.json''])
                 packageJsonPath)
            else ([packageJsonPath @ '' already exists''], Inr fs))
      else ([''not writing to node modules, dont need a package.json''], Inr fs))"

definition importStatement :: "federationConfig \<Rightarrow> string" where
  "importStatement cfg = ''export * from '' @ [sq] @ ''./'' @ name cfg @ [sq] @ '';''"

definition indexStep ::
  "path \<Rightarrow> federationConfig \<Rightarrow> path \<Rightarrow> filesystem \<Rightarrow> string list \<times> (error + filesystem)"
where
  "indexStep cwd cfg outputDir fs =
     (let indexPath = path_resolve cwd [outputDir, ''index.d.ts'']
      in if \<not> existsSync fs indexPath then
           ([''creating index.d.ts file''],
            writeFileSync fs indexPath (importStatement cfg @ [LF]))
         else
           ([''updating index.d.ts file''],
            (case readFileSync fs indexPath of
               Inl e \<Rightarrow> Inl e
             | Inr contents \<Rightarrow>
                 if \<not> includes_str contents (importStatement cfg)
                 then writeFileSync fs indexPath (contents @ importStatement cfg @ [LF])
                 else Inr fs)))"

section \<open>The whole script\<close>

text \<open>
  What the script finds around it: the command line, the working directory, the directory
  of the script, the library function \<^verbatim>\<open>findNodeModules\<close> (called with
  \<^verbatim>\<open>process.argv[1]\<close> as its starting point), the entries of the working directory,
  what \<^verbatim>\<open>require\<close> loads from a path (\<open>None\<close> when it throws), the file system, the
  declaration engine, and the regular expression engine on the patterns the model does
  not read.
\<close>

record world =
  procArgv :: "string list"
  procCwd :: path
  scriptDir :: path
  findNodeModules :: "jsval \<Rightarrow> path list"
  cwdEntries :: "(string \<times> node) list"
  requireConfig :: "path \<Rightarrow> federationConfig option"
  fsys :: filesystem
  tsEngine :: engine
  regexpOther :: "string \<Rightarrow> string \<Rightarrow> string \<Rightarrow> error + string"

text \<open>How the \<^verbatim>\<open>try\<close> block ends: at its end, at a \<^verbatim>\<open>process.exit\<close>, or by an exception.\<close>

datatype completion = Completed | Exited int | Thrown error

record outcome =
  exitCode :: int
  stdout :: "string list"
  stderr :: "string list"
  fsAfter :: filesystem

text \<open>Lines 91 to 153, after an emission that was not skipped.\<close>

definition publish ::
  "world \<Rightarrow> path \<Rightarrow> federationConfig \<Rightarrow> path \<Rightarrow> filesystem \<Rightarrow> completion \<times> string list \<times> filesystem"
where
  "publish w outputDir cfg outFile fs =
     (case readFileSync fs outFile of
        Inl e \<Rightarrow> (Thrown e, [], fs)
      | Inr typing0 \<Rightarrow>
          (case rewriteTyping (regexpOther w) cfg typing0 of
             Inl e \<Rightarrow> (Thrown e, [], fs)
           | Inr typing \<Rightarrow>
               (let log1 = [''writing typing file: '' @ outFile]
                in case writeFileSync fs outFile typing of
                     Inl e \<Rightarrow> (Thrown e, log1, fs)
                   | Inr fs1 \<Rightarrow>
                       (case packageJsonStep (procCwd w) (scriptDir w) outputDir fs1 of
                          (log2, Inl e) \<Rightarrow> (Thrown e, log1 @ log2, fs1)
                        | (log2, Inr fs2) \<Rightarrow>
                            (case indexStep (procCwd w) cfg outputDir fs2 of
                               (log3, Inl e) \<Rightarrow> (Thrown e, log1 @ log2 @ log3, fs2)
                             | (log3, Inr fs3) \<Rightarrow>
                                 (Completed, log1 @ log2 @ log3 @ [''Success!''], fs3))))))"

text \<open>Lines 69 to 71: the old declaration file is removed before anything is emitted.\<close>

definition removeOld :: "filesystem \<Rightarrow> path \<Rightarrow> error + filesystem" where
  "removeOld fs outFile = (if existsSync fs outFile then unlinkSync fs outFile else Inr fs)"

text \<open>The \<^verbatim>\<open>try\<close> block, lines 68 to 153.\<close>

definition tryBlock ::
  "world \<Rightarrow> path \<Rightarrow> federationConfig \<Rightarrow> path \<Rightarrow> completion \<times> string list \<times> filesystem"
where
  "tryBlock w outputDir cfg outFile =
     (case removeOld (fsys w) outFile of
        Inl e \<Rightarrow> (Thrown e, [], fsys w)
      | Inr fs1 \<Rightarrow>
          (case tsEngine w (compileFiles cfg) outFile fs1 of
             EngineThrows e fs2 \<Rightarrow> (Thrown e, [], fs2)
           | EngineReturns emitSkipped diagnostics fs2 \<Rightarrow>
               (let log0 = map reportDiagnostic diagnostics
                in if emitSkipped then (Exited 0, log0, fs2)
                   else (case publish w outputDir cfg outFile fs2 of
                           (c, log1, fs3) \<Rightarrow> (c, log0 @ log1, fs3)))))"

fun showError :: "error \<Rightarrow> string" where
  "showError TypeError = ''TypeError''"
| "showError ModuleError = ''Error: Cannot find module''"
| "showError (ENOENT p) = ''Error: ENOENT: no such file or directory '' @ p"
| "showError (EISDIR p) = ''Error: EISDIR: illegal operation on a directory '' @ p"
| "showError (EngineError m) = m"
| "showError (RegExpError m) = m"

definition outFileOf :: "path \<Rightarrow> path \<Rightarrow> federationConfig \<Rightarrow> path" where
  "outFileOf cwd outputDir cfg = path_resolve cwd [outputDir, name cfg @ ''.d.ts'']"

text \<open>
  An exception outside the \<^verbatim>\<open>try\<close> block is not caught: Node prints it on the standard
  error channel and ends the process with status 1.
\<close>

definition uncaught :: "error \<Rightarrow> string list \<Rightarrow> filesystem \<Rightarrow> outcome" where
  "uncaught e out fs =
     \<lparr>exitCode = 1, stdout = out, stderr = [''Uncaught '' @ showError e], fsAfter = fs\<rparr>"

definition main :: "world \<Rightarrow> outcome" where
  "main w =
     (case outputDirOf (procCwd w) (procArgv w) (findNodeModules w (argvAt (procArgv w) 1)) of
        Inl e \<Rightarrow> uncaught e [] (fsys w)
      | Inr outputDir \<Rightarrow>
          (case findFederationConfig (procCwd w) ''./'' (cwdEntries w) of
             None \<Rightarrow>
               \<lparr>exitCode = 1, stdout = [],
                stderr = [''ERROR: Unable to find a federation.config.json file in this package''],
                fsAfter = fsys w\<rparr>
           | Some federationConfigPath \<Rightarrow>
               (let log0 = [''Using config file: '' @ federationConfigPath]
                in case requireConfig w federationConfigPath of
                     None \<Rightarrow> uncaught ModuleError log0 (fsys w)
                   | Some cfg \<Rightarrow>
                       (case tryBlock w outputDir cfg (outFileOf (procCwd w) outputDir cfg) of
                          (Completed, log1, fs) \<Rightarrow>
                            \<lparr>exitCode = 0, stdout = log0 @ log1, stderr = [], fsAfter = fs\<rparr>
                        | (Exited n, log1, fs) \<Rightarrow>
                            \<lparr>exitCode = n, stdout = log0 @ log1, stderr = [], fsAfter = fs\<rparr>
                        | (Thrown e, log1, fs) \<Rightarrow>
                            \<lparr>exitCode = 1, stdout = log0 @ log1,
                             stderr = [''ERROR: '' @ showError e], fsAfter = fs\<rparr>))))"

section \<open>Sample inputs\<close>

text \<open>The manifest of the specification's alias example.\<close>

definition exampleConfig :: federationConfig where
  "exampleConfig = \<lparr>name = ''app'',
     exposes = [(''./Button'', ''src/Button.ts''), (''./Btn'', ''src/Button.ts'')]\<rparr>"

text \<open>An engine that reports a skipped emission and writes nothing.\<close>

definition skipEngine :: engine where
  "skipEngine roots outFile fs = EngineReturns True [] fs"

text \<open>A regular expression engine that rejects every pattern the model leaves to it.\<close>

definition noOther :: "string \<Rightarrow> string \<Rightarrow> string \<Rightarrow> error + string" where
  "noOther src template s = Inl (RegExpError ''Invalid regular expression'')"

definition emptyDirs :: filesystem where
  "emptyDirs = [''/proj/out'' \<mapsto> DirE, ''/tool'' \<mapsto> DirE]"

text \<open>
  A package whose only manifest lies in the second directory of the root: the search
  looks into \<^verbatim>\<open>a\<close> alone.
\<close>

definition lostWorld :: world where
  "lostWorld = \<lparr>procArgv = [''node'', ''/tool/cli.js'', ''--outputDir'', ''out''],
     procCwd = ''/proj'', scriptDir = ''/tool'',
     findNodeModules = (\<lambda>start. []),
     cwdEntries = [(''README.md'', File), (''a'', Dir []),
                   (''b'', Dir [(''federation.config.json'', File)])],
     requireConfig = (\<lambda>p. Some exampleConfig),
     fsys = emptyDirs, tsEngine = skipEngine, regexpOther = noOther\<rparr>"

text \<open>
  A package with its manifest at the root and a declaration file published by an earlier
  run; the engine skips the emission.
\<close>

definition publishedFiles :: filesystem where
  \<open>publishedFiles = [''/proj/out'' \<mapsto> DirE, ''/tool'' \<mapsto> DirE,
     ''/proj/out/app.d.ts'' \<mapsto> FileE ''declare module "app/Button" { }'']\<close>

definition skipWorld :: world where
  "skipWorld = \<lparr>procArgv = [''node'', ''/tool/cli.js'', ''--outputDir'', ''out''],
     procCwd = ''/proj'', scriptDir = ''/tool'',
     findNodeModules = (\<lambda>start. []),
     cwdEntries = [(''federation.config.json'', File), (''src'', Dir [(''Button.ts'', File)])],
     requireConfig = (\<lambda>p. if p = ''/proj/federation.config.json'' then Some exampleConfig else None),
     fsys = publishedFiles, tsEngine = skipEngine, regexpOther = noOther\<rparr>"

definition crashEngine :: engine where
  "crashEngine roots outFile fs = EngineThrows (EngineError ''Debug Failure'') fs"

definition crashWorld :: world where
  "crashWorld = skipWorld\<lparr>tsEngine := crashEngine\<rparr>"

text \<open>
  A run into the default directory below \<^verbatim>\<open>node_modules/@types\<close>, where a package
  descriptor was edited by hand; the engine emits one module.
\<close>

definition emitEngine :: "string \<Rightarrow> engine" where
  "emitEngine text roots outFile fs = EngineReturns False [] (fs(outFile \<mapsto> FileE text))"

definition exampleTyping :: string where
  \<open>exampleTyping = ''declare module "src/Button.ts" {'' @ [LF] @
     ''    export const Button: string;'' @ [LF] @ ''}'' @ [LF]\<close>

definition typesFiles :: filesystem where
  \<open>typesFiles = [''/proj/node_modules/@types/__federated_types'' \<mapsto> DirE,
     ''/proj/node_modules/@types/__federated_types/package.json'' \<mapsto> FileE ''{ "private": true }'',
     ''/tool'' \<mapsto> DirE,
     ''/tool/typings.package.tmpl.json'' \<mapsto> FileE ''{ "name": "@types/__federated_types" }'']\<close>

definition typesWorld :: world where
  "typesWorld = \<lparr>procArgv = [''node'', ''/tool/cli.js''],
     procCwd = ''/proj'', scriptDir = ''/tool'',
     findNodeModules = (\<lambda>start. [''/proj/node_modules'']),
     cwdEntries = [(''federation.config.json'', File), (''node_modules'', Dir []),
                   (''src'', Dir [(''Button.ts'', File)])],
     requireConfig = (\<lambda>p. if p = ''/proj/federation.config.json'' then Some exampleConfig else None),
     fsys = typesFiles, tsEngine = emitEngine exampleTyping, regexpOther = noOther\<rparr>"

text \<open>The same package after that run.\<close>

definition secondWorld :: world where
  "secondWorld = typesWorld\<lparr>fsys := fsAfter (main typesWorld)\<rparr>"

text \<open>
  A module declaration with an empty body on a line of its own, and a text that declares
  one module twice.
\<close>

definition declareLine :: "string \<Rightarrow> string" where
  \<open>declareLine ident = ''declare module "'' @ ident @ ''" { }'' @ [LF]\<close>

definition twiceDeclared :: string where
  "twiceDeclared = declareLine ''src/Button.ts'' @ declareLine ''src/Button.ts''"

text \<open>The number of places of a text at which \<open>needle\<close> stands.\<close>

fun occurrences :: "string \<Rightarrow> string \<Rightarrow> nat" where
  "occurrences needle [] = (if needle = [] then 1 else 0)"
| "occurrences needle (c # cs) =
     (if prefix needle (c # cs) then 1 else 0) + occurrences needle cs"

text \<open>
  A manifest that exposes one file under two keys, where the name of the file has
  brackets, and the text emitted for it.
\<close>

definition routeConfig :: federationConfig where
  "routeConfig = \<lparr>name = ''app'',
     exposes = [(''./Page'', ''pages/[id]''), (''./Detail'', ''pages/[id]'')]\<rparr>"

definition routeTyping :: string where
  \<open>routeTyping = ''declare module "pages/[id]" {'' @ [LF] @
     ''    export const Page: string;'' @ [LF] @ ''}'' @ [LF]\<close>

text \<open>A manifest in which a key written second is an array index.\<close>

definition numberedManifest :: "(string \<times> string) list" where
  "numberedManifest = [(''./B'', ''src/Button''), (''7'', ''src/Button'')]"

text \<open>
  A package without a manifest, started without \<^verbatim>\<open>--outputDir\<close> from a place where
  \<^verbatim>\<open>findNodeModules\<close> finds nothing.
\<close>

definition bareWorld :: world where
  "bareWorld = lostWorld\<lparr>procArgv := [''node'', ''/tool/cli.js''], cwdEntries := []\<rparr>"

section \<open>Lemmas\<close>

subsection \<open>Command line\<close>










subsection \<open>Manifest search\<close>

lemma scanEntries_no_manifest:
  "''federation.config.json'' \<notin> fst ` set files \<Longrightarrow>
     scanEntries cwd base files queue =
       Inr (queue @ map (\<lambda>e. (path_join [base, fst e], snd e)) (filter (queued base) files))"
  by (induction files arbitrary: queue) (auto simp: Let_def queued_def)

lemma search_head_of_queue:
  assumes "''federation.config.json'' \<notin> fst ` set files"
  shows "findFederationConfig cwd base files =
     (case filter (queued base) files of
        [] \<Rightarrow> None
      | (d, File) # later \<Rightarrow> None
      | (d, Dir sub) # later \<Rightarrow> findFederationConfig cwd (path_join [base, d]) sub)"
  using assms
  by (simp add: findFederationConfig.simps [of cwd base files] scanEntries_no_manifest
        split: list.splits node.splits prod.splits)

lemma filter_skipped:
  assumes "\<forall>e \<in> set skipped. \<not> queued base e" and "queued base e"
  shows "filter (queued base) (skipped @ e # later) = e # filter (queued base) later"
  using assms by (induction skipped) auto

lemma no_manifest_not_found:
  "\<not> manifestIn (Dir files) \<Longrightarrow> findFederationConfig cwd base files = None"
proof (induction cwd base files rule: findFederationConfig.induct)
  case (1 cwd base files)
  from "1.prems" have nm: "''federation.config.json'' \<notin> fst ` set files"
    by auto
  show ?case
  proof (cases "filter (queued base) files")
    case Nil
    with nm show ?thesis by (simp add: search_head_of_queue)
  next
    case (Cons e later)
    obtain d n where e: "e = (d, n)" by (cases e)
    show ?thesis
    proof (cases n)
      case File
      with nm Cons e show ?thesis by (simp add: search_head_of_queue)
    next
      case (Dir sub)
      have "(d, Dir sub) \<in> set (filter (queued base) files)"
        by (simp add: Cons e Dir)
      then have mem: "(d, Dir sub) \<in> set files" by simp
      with "1.prems" have ns: "\<not> manifestIn (Dir sub)" by force
      have sc: "scanEntries cwd base files [] =
          Inr ((path_join [base, d], Dir sub) # map (\<lambda>e. (path_join [base, fst e], snd e)) later)"
        using nm by (simp add: scanEntries_no_manifest Cons e Dir)
      from "1.IH" [OF sc refl refl refl ns]
      have "findFederationConfig cwd (path_join [base, d]) sub = None" .
      with nm Cons e Dir show ?thesis by (simp add: search_head_of_queue)
    qed
  qed
qed

subsection \<open>Paths\<close>

lemma splitOn_nonempty: "splitOn sep s \<noteq> []"
  by (induction s) (auto split: list.splits)

lemma splitOn_append_sep: "splitOn sep (u @ sep # v) = splitOn sep u @ splitOn sep v"
proof (induction u)
  case Nil
  show ?case by simp
next
  case (Cons c u)
  obtain w ws where "splitOn sep u = w # ws"
    using splitOn_nonempty [of sep u] by (cases "splitOn sep u") auto
  with Cons show ?case by simp
qed

lemma splitOn_no_sep: "sep \<notin> set v \<Longrightarrow> splitOn sep v = [v]"
  by (induction v) auto

lemma splitOn_segments: "x \<in> set (splitOn sep s) \<Longrightarrow> sep \<notin> set x"
proof (induction s arbitrary: x)
  case Nil
  then show ?case by simp
next
  case (Cons c s)
  obtain w ws where ws: "splitOn sep s = w # ws"
    using splitOn_nonempty [of sep s] by (cases "splitOn sep s") auto
  show ?case
  proof (cases "c = sep")
    case True
    with Cons show ?thesis by auto
  next
    case False
    with Cons.prems ws have "x = c # w \<or> x \<in> set ws" by simp
    then show ?thesis
      using Cons.IH [of w] Cons.IH [of x] ws False by auto
  qed
qed



lemma joinWith_snoc:
  "joinWith sep (xs @ [x]) = (if xs = [] then x else joinWith sep xs @ sep @ x)"
  by (induction sep xs rule: joinWith.induct) auto

lemma resolveLoop_shape:
  "\<exists>X b. resolveLoop ps acc = (X @ acc, b) \<and> (X = [] \<or> last X = CHR ''/'')"
proof (induction ps arbitrary: acc)
  case Nil
  have "resolveLoop [] acc = ([] @ acc, False)" by simp
  then show ?case by blast
next
  case (Cons p ps)
  show ?case
  proof (cases "p = []")
    case True
    with Cons [of acc] show ?thesis by simp
  next
    case False
    show ?thesis
    proof (cases "isAbsolute p")
      case True
      have "resolveLoop (p # ps) acc = ((p @ ''/'') @ acc, True)"
        using False True by simp
      then show ?thesis by (metis last_snoc append_Cons append_Nil)
    next
      case na: False
      from Cons [of "p @ ''/'' @ acc"] obtain X b where
        X: "resolveLoop ps (p @ ''/'' @ acc) = (X @ p @ ''/'' @ acc, b)" by blast
      have "resolveLoop (p # ps) acc = ((X @ p @ ''/'') @ acc, b)"
        using False na X by simp
      moreover have "last (X @ p @ ''/'') = CHR ''/''" by simp
      ultimately show ?thesis by blast
    qed
  qed
qed

lemma ordinary_segment_pushed:
  assumes "seg \<noteq> []" and "seg \<noteq> ''.''" and "seg \<noteq> ''..''"
  shows "foldl (normStep allow) [] (segs @ [seg] @ [[]])
           = foldl (normStep allow) [] segs @ [seg]"
  using assms by (simp add: normStep_def)

lemma last_splitOn_slash_segment:
  assumes "CHR ''/'' \<notin> set seg"
  shows "last (splitOn CHR ''/'' (Y @ CHR ''/'' # seg)) = seg"
  using assms by (simp add: splitOn_append_sep splitOn_no_sep splitOn_nonempty)

text \<open>The last segment of a resolved path is the last segment of the last argument.\<close>

lemma basename_resolve:
  assumes "seg = last (splitOn CHR ''/'' a)"
      and "seg \<noteq> []" and "seg \<noteq> ''.''" and "seg \<noteq> ''..''"
  shows "last (splitOn CHR ''/'' (path_resolve cwd (args @ [a]))) = seg"
proof -
  have a: "a \<noteq> []" using assms(1,2) by auto
  have noslash: "CHR ''/'' \<notin> set seg"
    using splitOn_segments [of seg "CHR ''/''" a] splitOn_nonempty [of "CHR ''/''" a] assms(1)
    by simp
  obtain X b where X: "resolveLoop (rev (args @ [a]) @ [cwd]) [] = (X @ a @ ''/'', b)"
    and Xs: "X = [] \<or> last X = CHR ''/''"
  proof (cases "isAbsolute a")
    case True
    then have "resolveLoop (rev (args @ [a]) @ [cwd]) [] = ([] @ a @ ''/'', True)"
      using a by simp
    then show ?thesis using that by blast
  next
    case False
    from resolveLoop_shape [of "rev args @ [cwd]" "a @ ''/''"] obtain X b where
      "resolveLoop (rev args @ [cwd]) (a @ ''/'') = (X @ a @ ''/'', b)"
      and "X = [] \<or> last X = CHR ''/''" by blast
    then show ?thesis using that False a by simp
  qed
  obtain S where S: "splitOn CHR ''/'' (X @ a @ ''/'') = S @ splitOn CHR ''/'' a @ [[]]"
  proof (cases "X = []")
    case True
    have "splitOn CHR ''/'' (a @ ''/'') = splitOn CHR ''/'' a @ [[]]"
      using splitOn_append_sep [of "CHR ''/''" a "[]"] by simp
    then show ?thesis using that [of "[]"] True by simp
  next
    case False
    with Xs obtain X' where X': "X = X' @ ''/''"
      by (metis append_butlast_last_id)
    have "splitOn CHR ''/'' (X' @ CHR ''/'' # (a @ ''/''))
        = splitOn CHR ''/'' X' @ splitOn CHR ''/'' (a @ ''/'')"
      by (rule splitOn_append_sep)
    moreover have "splitOn CHR ''/'' (a @ ''/'') = splitOn CHR ''/'' a @ [[]]"
      using splitOn_append_sep [of "CHR ''/''" a "[]"] by simp
    ultimately show ?thesis using that [of "splitOn CHR ''/'' X'"] X' by simp
  qed
  have sa: "splitOn CHR ''/'' a = butlast (splitOn CHR ''/'' a) @ [seg]"
    using splitOn_nonempty [of "CHR ''/''" a] assms(1) by simp
  define R where "R = foldl (normStep (\<not> b)) [] (S @ butlast (splitOn CHR ''/'' a))"
  have "splitOn CHR ''/'' (X @ a @ ''/'') = (S @ butlast (splitOn CHR ''/'' a)) @ [seg] @ [[]]"
    using S sa by simp
  then have "foldl (normStep (\<not> b)) [] (splitOn CHR ''/'' (X @ a @ ''/'')) = R @ [seg]"
    unfolding R_def
    using ordinary_segment_pushed
      [OF assms(2,3,4), of "\<not> b" "S @ butlast (splitOn CHR ''/'' a)"]
    by presburger
  then have n: "normalizeString (X @ a @ ''/'') (\<not> b) = joinWith ''/'' (R @ [seg])"
    by (simp add: normalizeString_def)
  have ne: "joinWith ''/'' (R @ [seg]) \<noteq> []"
    using assms(2) by (simp add: joinWith_snoc)
  have j: "last (splitOn CHR ''/'' (joinWith ''/'' (R @ [seg]))) = seg"
    using last_splitOn_slash_segment [OF noslash] noslash
    by (simp add: joinWith_snoc splitOn_no_sep)
  have j': "last (splitOn CHR ''/'' (''/'' @ joinWith ''/'' (R @ [seg]))) = seg"
  proof (cases "R = []")
    case True
    then show ?thesis
      using last_splitOn_slash_segment [OF noslash, of "[]"] by (simp add: joinWith_snoc)
  next
    case False
    then show ?thesis
      using last_splitOn_slash_segment [OF noslash, of "''/'' @ joinWith ''/'' R"]
      by (simp add: joinWith_snoc)
  qed
  show ?thesis
  proof (cases b)
    case True
    with n have "normalizeString (X @ a @ ''/'') False = joinWith ''/'' (R @ [seg])" by simp
    with j' True show ?thesis
      unfolding path_resolve_def X by (simp add: Let_def)
  next
    case False
    with n have "normalizeString (X @ a @ ''/'') True = joinWith ''/'' (R @ [seg])" by simp
    with j ne False show ?thesis
      unfolding path_resolve_def X by (simp add: Let_def)
  qed
qed


lemma packageJson_basename:
  "last (splitOn CHR ''/'' (path_resolve cwd [outputDir, ''package.json''])) = ''package.json''"
proof -
  have "last (splitOn CHR ''/'' (path_resolve cwd ([outputDir] @ [''package.json''])))
      = ''package.json''"
    by (rule basename_resolve) (simp_all add: splitOn_no_sep)
  then show ?thesis by simp
qed

lemma index_basename:
  "last (splitOn CHR ''/'' (path_resolve cwd [outputDir, ''index.d.ts''])) = ''index.d.ts''"
proof -
  have "last (splitOn CHR ''/'' (path_resolve cwd ([outputDir] @ [''index.d.ts''])))
      = ''index.d.ts''"
    by (rule basename_resolve) (simp_all add: splitOn_no_sep)
  then show ?thesis by simp
qed


lemma index_not_packageJson:
  "path_resolve cwd [outputDir, ''index.d.ts''] \<noteq> path_resolve cwd [outputDir, ''package.json'']"
proof
  assume "path_resolve cwd [outputDir, ''index.d.ts''] = path_resolve cwd [outputDir, ''package.json'']"
  then have "''index.d.ts'' = ''package.json''"
    using index_basename [of cwd outputDir] packageJson_basename [of cwd outputDir] by simp
  then show False by simp
qed

subsection \<open>File system steps\<close>

lemma removeOld_file: "fs p \<noteq> Some DirE \<Longrightarrow> removeOld fs p = Inr (fs(p := None))"
  by (cases "fs p") (auto simp: removeOld_def existsSync_def unlinkSync_def split: entry.splits)

lemma removeOld_dir: "fs p = Some DirE \<Longrightarrow> removeOld fs p = Inl (EISDIR p)"
  by (simp add: removeOld_def existsSync_def unlinkSync_def)

lemma main_reaches:
  assumes "outputDirOf (procCwd w) (procArgv w) (findNodeModules w (argvAt (procArgv w) 1)) = Inr outputDir"
      and "findFederationConfig (procCwd w) ''./'' (cwdEntries w) = Some p"
      and "requireConfig w p = Some cfg"
  shows "main w =
     (case tryBlock w outputDir cfg (outFileOf (procCwd w) outputDir cfg) of
        (Completed, log1, fs) \<Rightarrow>
          \<lparr>exitCode = 0, stdout = [''Using config file: '' @ p] @ log1, stderr = [], fsAfter = fs\<rparr>
      | (Exited n, log1, fs) \<Rightarrow>
          \<lparr>exitCode = n, stdout = [''Using config file: '' @ p] @ log1, stderr = [], fsAfter = fs\<rparr>
      | (Thrown e, log1, fs) \<Rightarrow>
          \<lparr>exitCode = 1, stdout = [''Using config file: '' @ p] @ log1,
           stderr = [''ERROR: '' @ showError e], fsAfter = fs\<rparr>)"
  unfolding main_def assms(1)
  by (simp add: assms(2,3) Let_def split: prod.splits completion.splits)

lemma tryBlock_skipped:
  assumes "removeOld (fsys w) outFile = Inr fs1"
      and "tsEngine w (compileFiles cfg) outFile fs1 = EngineReturns True diagnostics fs2"
  shows "tryBlock w outputDir cfg outFile = (Exited 0, map reportDiagnostic diagnostics, fs2)"
  by (simp add: tryBlock_def assms)

lemma tryBlock_engine_throws:
  assumes "removeOld (fsys w) outFile = Inr fs1"
      and "tsEngine w (compileFiles cfg) outFile fs1 = EngineThrows e fs2"
  shows "tryBlock w outputDir cfg outFile = (Thrown e, [], fs2)"
  by (simp add: tryBlock_def assms)

lemma tryBlock_nothing_emitted:
  assumes "removeOld (fsys w) outFile = Inr fs1"
      and "tsEngine w (compileFiles cfg) outFile fs1 = EngineReturns False diagnostics fs2"
      and "fs2 outFile = None"
  shows "tryBlock w outputDir cfg outFile = (Thrown (ENOENT outFile), map reportDiagnostic diagnostics, fs2)"
  by (simp add: tryBlock_def assms publish_def readFileSync_def)

lemma writeFileSync_result: "writeFileSync fs p c = Inr fs' \<Longrightarrow> fs' = fs(p \<mapsto> FileE c)"
  by (auto simp: writeFileSync_def split: if_splits)

lemma removeOld_result: "removeOld fs p = Inr fs' \<Longrightarrow> fs' = fs(p := None)"
  by (auto simp: removeOld_def existsSync_def unlinkSync_def split: if_splits option.splits entry.splits)

lemma copyFileSync_result:
  "copyFileSync fs src dest = Inr fs' \<Longrightarrow> \<exists>t. fs src = Some (FileE t) \<and> fs' = fs(dest \<mapsto> FileE t)"
  by (auto simp: copyFileSync_def readFileSync_def split: sum.splits option.splits entry.splits
      dest: writeFileSync_result)

lemma packageJsonStep_result:
  assumes "packageJsonStep cwd sd outputDir fs = (lg, Inr fs')"
  shows "fs' = fs
       \<or> (includes_str outputDir (path_join [''node_modules'', ''@types''])
          \<and> fs (path_resolve cwd [outputDir, ''package.json'']) = None
          \<and> (\<exists>t. fs (path_resolve cwd [sd, ''typings.package.tmpl.json'']) = Some (FileE t)
                \<and> fs' = fs(path_resolve cwd [outputDir, ''package.json''] \<mapsto> FileE t)))"
  using assms
  by (auto simp: packageJsonStep_def Let_def existsSync_def split: if_splits
      dest: copyFileSync_result)

lemma includes_str_appended: "includes_str (contents @ stmt @ rest) stmt"
  by (simp add: includes_str_def)

lemma indexStep_result:
  assumes "indexStep cwd cfg outputDir fs = (lg, Inr fs')"
  shows "(fs' = fs \<or> (\<exists>c. fs' = fs(path_resolve cwd [outputDir, ''index.d.ts''] \<mapsto> FileE c)))
       \<and> (\<exists>c. fs' (path_resolve cwd [outputDir, ''index.d.ts'']) = Some (FileE c)
               \<and> includes_str c (importStatement cfg))"
proof (cases "fs (path_resolve cwd [outputDir, ''index.d.ts''])")
  case None
  with assms have "writeFileSync fs (path_resolve cwd [outputDir, ''index.d.ts''])
      (importStatement cfg @ [LF]) = Inr fs'"
    by (simp add: indexStep_def Let_def existsSync_def)
  from writeFileSync_result [OF this] show ?thesis
    using includes_str_appended [of "[]" "importStatement cfg" "[LF]"] by auto
next
  case (Some e)
  show ?thesis
  proof (cases e)
    case DirE
    with Some assms show ?thesis
      by (simp add: indexStep_def Let_def existsSync_def readFileSync_def)
  next
    case (FileE contents)
    show ?thesis
    proof (cases "includes_str contents (importStatement cfg)")
      case True
      with Some FileE assms have "fs' = fs"
        by (simp add: indexStep_def Let_def existsSync_def readFileSync_def)
      with Some FileE True show ?thesis by simp
    next
      case False
      with Some FileE assms have "writeFileSync fs (path_resolve cwd [outputDir, ''index.d.ts''])
          (contents @ importStatement cfg @ [LF]) = Inr fs'"
        by (simp add: indexStep_def Let_def existsSync_def readFileSync_def)
      from writeFileSync_result [OF this] show ?thesis
        using includes_str_appended [of contents "importStatement cfg" "[LF]"] by auto
    qed
  qed
qed

lemma indexStep_present:
  assumes "fs (path_resolve cwd [outputDir, ''index.d.ts'']) = Some (FileE contents)"
      and "includes_str contents (importStatement cfg)"
  shows "indexStep cwd cfg outputDir fs = ([''updating index.d.ts file''], Inr fs)"
  using assms by (simp add: indexStep_def Let_def existsSync_def readFileSync_def)


lemma main_fsAfter:
  assumes "outputDirOf (procCwd w) (procArgv w) (findNodeModules w (argvAt (procArgv w) 1)) = Inr outputDir"
  shows "fsAfter (main w) = fsys w
       \<or> (\<exists>p cfg c lg. requireConfig w p = Some cfg
            \<and> tryBlock w outputDir cfg (outFileOf (procCwd w) outputDir cfg) = (c, lg, fsAfter (main w)))"
proof (cases "findFederationConfig (procCwd w) ''./'' (cwdEntries w)")
  case None
  then show ?thesis unfolding main_def assms by simp
next
  case (Some p)
  show ?thesis
  proof (cases "requireConfig w p")
    case None
    with Some show ?thesis unfolding main_def assms by (simp add: uncaught_def)
  next
    case cfg: (Some cfg)
    obtain c lg fs' where t: "tryBlock w outputDir cfg (outFileOf (procCwd w) outputDir cfg) = (c, lg, fs')"
      by (cases "tryBlock w outputDir cfg (outFileOf (procCwd w) outputDir cfg)")
    have "fsAfter (main w) = fs'"
      unfolding main_reaches [OF assms Some cfg] t by (cases c) simp_all
    with cfg t show ?thesis by blast
  qed
qed


lemma publish_index_kept:
  assumes "publish w outputDir cfg outFile fs = (c, lg, fs')"
      and "outFile \<noteq> path_resolve (procCwd w) [outputDir, ''index.d.ts'']"
      and "fs (path_resolve (procCwd w) [outputDir, ''index.d.ts'']) = Some (FileE contents)"
      and "includes_str contents (importStatement cfg)"
  shows "fs' (path_resolve (procCwd w) [outputDir, ''index.d.ts'']) = Some (FileE contents)"
proof -
  let ?pkg = "path_resolve (procCwd w) [outputDir, ''package.json'']"
  let ?idx = "path_resolve (procCwd w) [outputDir, ''index.d.ts'']"
  have ip: "?idx \<noteq> ?pkg" by (rule index_not_packageJson)
  show ?thesis
  proof (cases "readFileSync fs outFile")
    case (Inl e)
    with assms(1,3) show ?thesis by (simp add: publish_def)
  next
    case (Inr typing0)
    show ?thesis
    proof (cases "rewriteTyping (regexpOther w) cfg typing0")
      case (Inl e)
      with Inr assms(1,3) show ?thesis by (simp add: publish_def)
    next
      case rw: (Inr typing)
      show ?thesis
      proof (cases "writeFileSync fs outFile typing")
        case (Inl e)
        with Inr rw assms(1,3) show ?thesis by (simp add: publish_def)
      next
        case w1: (Inr fs1)
        from writeFileSync_result [OF w1] assms(2,3) have f1: "fs1 ?idx = Some (FileE contents)"
          by simp
        obtain log2 r2 where p2: "packageJsonStep (procCwd w) (scriptDir w) outputDir fs1 = (log2, r2)"
          by (cases "packageJsonStep (procCwd w) (scriptDir w) outputDir fs1")
        show ?thesis
        proof (cases r2)
          case (Inl e)
          with Inr rw w1 p2 assms(1) have "fs' = fs1" by (simp add: publish_def)
          with f1 show ?thesis by simp
        next
          case s2: (Inr fs2)
          from packageJsonStep_result [OF p2 [unfolded s2]] ip f1
          have f2: "fs2 ?idx = Some (FileE contents)" by auto
          have "indexStep (procCwd w) cfg outputDir fs2 = ([''updating index.d.ts file''], Inr fs2)"
            using f2 assms(4) by (rule indexStep_present)
          with Inr rw w1 p2 s2 assms(1)
          have "fs' = fs2" by (simp add: publish_def)
          with f2 show ?thesis by simp
        qed
      qed
    qed
  qed
qed

lemma publish_completed_index:
  assumes "publish w outputDir cfg outFile fs = (Completed, lg, fs')"
  shows "\<exists>c. fs' (path_resolve (procCwd w) [outputDir, ''index.d.ts'']) = Some (FileE c)
           \<and> includes_str c (importStatement cfg)"
proof -
  from assms obtain fs2 log3 where "indexStep (procCwd w) cfg outputDir fs2 = (log3, Inr fs')"
    by (auto simp: publish_def Let_def split: sum.splits prod.splits)
  from indexStep_result [OF this] show ?thesis by blast
qed

lemma tryBlock_completed_index:
  assumes "tryBlock w outputDir cfg outFile = (Completed, lg, fs')"
  shows "\<exists>c. fs' (path_resolve (procCwd w) [outputDir, ''index.d.ts'']) = Some (FileE c)
           \<and> includes_str c (importStatement cfg)"
proof -
  from assms obtain fs2 lg' where "publish w outputDir cfg outFile fs2 = (Completed, lg', fs')"
    by (auto simp: tryBlock_def Let_def split: sum.splits engineResult.splits if_splits prod.splits)
  then show ?thesis by (rule publish_completed_index)
qed

lemma tryBlock_index_kept:
  assumes "tryBlock w outputDir cfg outFile = (c, lg, fs')"
      and "outFile \<noteq> path_resolve (procCwd w) [outputDir, ''index.d.ts'']"
      and "\<forall>roots out fs. out \<noteq> path_resolve (procCwd w) [outputDir, ''index.d.ts''] \<longrightarrow>
             engineFs (tsEngine w roots out fs) (path_resolve (procCwd w) [outputDir, ''index.d.ts''])
               = fs (path_resolve (procCwd w) [outputDir, ''index.d.ts''])"
      and "fsys w (path_resolve (procCwd w) [outputDir, ''index.d.ts'']) = Some (FileE contents)"
      and "includes_str contents (importStatement cfg)"
  shows "fs' (path_resolve (procCwd w) [outputDir, ''index.d.ts'']) = Some (FileE contents)"
proof -
  let ?idx = "path_resolve (procCwd w) [outputDir, ''index.d.ts'']"
  show ?thesis
  proof (cases "removeOld (fsys w) outFile")
    case (Inl e)
    with assms(1,4) show ?thesis by (simp add: tryBlock_def)
  next
    case (Inr fs1)
    from removeOld_result [OF Inr] assms(2,4) have f1: "fs1 ?idx = Some (FileE contents)" by simp
    have e: "engineFs (tsEngine w (compileFiles cfg) outFile fs1) ?idx = fs1 ?idx"
      using assms(2,3) by blast
    show ?thesis
    proof (cases "tsEngine w (compileFiles cfg) outFile fs1")
      case (EngineThrows err fs2)
      with Inr assms(1) have "fs' = fs2" by (simp add: tryBlock_def)
      with e EngineThrows f1 show ?thesis by simp
    next
      case (EngineReturns emitSkipped diagnostics fs2)
      with e f1 have f2: "fs2 ?idx = Some (FileE contents)" by simp
      show ?thesis
      proof (cases emitSkipped)
        case True
        with Inr EngineReturns assms(1) have "fs' = fs2" by (simp add: tryBlock_def)
        with f2 show ?thesis by simp
      next
        case False
        obtain c' lg' where p: "publish w outputDir cfg outFile fs2 = (c', lg', fs')"
          using Inr EngineReturns False assms(1)
          by (cases "publish w outputDir cfg outFile fs2") (simp add: tryBlock_def)
        from publish_index_kept [OF p assms(2) f2 assms(5)] show ?thesis .
      qed
    qed
  qed
qed

lemma main_index_kept:
  assumes "outputDirOf (procCwd w) (procArgv w) (findNodeModules w (argvAt (procArgv w) 1)) = Inr outputDir"
      and "\<forall>p cfg'. requireConfig w p = Some cfg' \<longrightarrow> cfg' = cfg"
      and "outFileOf (procCwd w) outputDir cfg \<noteq> path_resolve (procCwd w) [outputDir, ''index.d.ts'']"
      and "\<forall>roots out fs. out \<noteq> path_resolve (procCwd w) [outputDir, ''index.d.ts''] \<longrightarrow>
             engineFs (tsEngine w roots out fs) (path_resolve (procCwd w) [outputDir, ''index.d.ts''])
               = fs (path_resolve (procCwd w) [outputDir, ''index.d.ts''])"
      and "fsys w (path_resolve (procCwd w) [outputDir, ''index.d.ts'']) = Some (FileE contents)"
      and "includes_str contents (importStatement cfg)"
  shows "fsAfter (main w) (path_resolve (procCwd w) [outputDir, ''index.d.ts'']) = Some (FileE contents)"
  using main_fsAfter [OF assms(1)]
proof
  assume "fsAfter (main w) = fsys w"
  with assms(5) show ?thesis by simp
next
  assume "\<exists>p cfg c lg. requireConfig w p = Some cfg
            \<and> tryBlock w outputDir cfg (outFileOf (procCwd w) outputDir cfg) = (c, lg, fsAfter (main w))"
  then obtain p cfg' c lg where "requireConfig w p = Some cfg'"
    and t: "tryBlock w outputDir cfg' (outFileOf (procCwd w) outputDir cfg') = (c, lg, fsAfter (main w))"
    by blast
  with assms(2) have "cfg' = cfg" by blast
  with t have "tryBlock w outputDir cfg (outFileOf (procCwd w) outputDir cfg) = (c, lg, fsAfter (main w))"
    by simp
  from tryBlock_index_kept [OF this assms(3,4,5,6)] show ?thesis .
qed

text \<open>A run cannot tell whether the old declaration file was there.\<close>

lemma publish_fsys: "publish (w\<lparr>fsys := x\<rparr>) = publish w"
  by (intro ext) (simp add: publish_def cong: sum.case_cong prod.case_cong)

lemma removeOld_absent: "fs p = None \<Longrightarrow> removeOld fs p = Inr fs"
  by (simp add: removeOld_def existsSync_def)

lemma tryBlock_old_file_removed:
  assumes "fsys w outFile \<noteq> Some DirE"
  shows "tryBlock (w\<lparr>fsys := (fsys w)(outFile := None)\<rparr>) outputDir cfg outFile
           = tryBlock w outputDir cfg outFile"
proof -
  have a: "removeOld (fsys w) outFile = Inr ((fsys w)(outFile := None))"
    using assms by (rule removeOld_file)
  have b: "removeOld ((fsys w)(outFile := None)) outFile = Inr ((fsys w)(outFile := None))"
    by (rule removeOld_absent) simp
  show ?thesis
    by (simp add: tryBlock_def a b publish_fsys Let_def
          cong: engineResult.case_cong if_cong)
qed

lemma main_old_file_removed:
  assumes "outputDirOf (procCwd w) (procArgv w) (findNodeModules w (argvAt (procArgv w) 1)) = Inr outputDir"
      and "findFederationConfig (procCwd w) ''./'' (cwdEntries w) = Some p"
      and "requireConfig w p = Some cfg"
      and "outFile = outFileOf (procCwd w) outputDir cfg"
      and "fsys w outFile \<noteq> Some DirE"
  shows "main (w\<lparr>fsys := (fsys w)(outFile := None)\<rparr>) = main w"
proof -
  let ?w = "w\<lparr>fsys := (fsys w)(outFile := None)\<rparr>"
  have o: "outputDirOf (procCwd ?w) (procArgv ?w) (findNodeModules ?w (argvAt (procArgv ?w) 1)) = Inr outputDir"
    using assms(1) by simp
  have f: "findFederationConfig (procCwd ?w) ''./'' (cwdEntries ?w) = Some p"
    using assms(2) by simp
  have r: "requireConfig ?w p = Some cfg"
    using assms(3) by simp
  have t: "tryBlock ?w outputDir cfg (outFileOf (procCwd ?w) outputDir cfg)
      = tryBlock w outputDir cfg (outFileOf (procCwd w) outputDir cfg)"
    using tryBlock_old_file_removed [OF assms(5), of outputDir cfg] by (simp add: assms(4))
  show ?thesis
    unfolding main_reaches [OF o f r] main_reaches [OF assms(1,2,3)] t ..
qed

subsection \<open>The sample inputs\<close>

lemma skipWorld_outputDir:
  "outputDirOf (procCwd skipWorld) (procArgv skipWorld)
     (findNodeModules skipWorld (argvAt (procArgv skipWorld) 1)) = Inr ''/proj/out''"
  by code_simp

lemma skipWorld_manifest:
  "findFederationConfig (procCwd skipWorld) ''./'' (cwdEntries skipWorld)
     = Some ''/proj/federation.config.json''"
  by code_simp

lemma skipWorld_config:
  "requireConfig skipWorld ''/proj/federation.config.json'' = Some exampleConfig"
  by (simp add: skipWorld_def)

lemma skipWorld_outFile:
  "''/proj/out/app.d.ts'' = outFileOf (procCwd skipWorld) ''/proj/out'' exampleConfig"
  by code_simp

lemma skipWorld_old_file:
  "fsys skipWorld ''/proj/out/app.d.ts'' \<noteq> Some DirE"
  by (simp add: skipWorld_def publishedFiles_def)

lemma typesWorld_outputDir:
  "outputDirOf (procCwd typesWorld) (procArgv typesWorld)
     (findNodeModules typesWorld (argvAt (procArgv typesWorld) 1))
     = Inr ''/proj/node_modules/@types/__federated_types''"
  by code_simp


lemma emitEngine_frame:
  "\<forall>roots out fs. out \<noteq> p \<longrightarrow> engineFs (emitEngine text roots out fs) p = fs p"
  by (simp add: emitEngine_def)

subsection \<open>The module scan\<close>

lemma dq_not_terminator: "\<not> isLineTerminator dq"
  by (simp add: isLineTerminator_def dq_def LF_def CR_def)

lemma lastQuote_closing:
  assumes "dq \<notin> set tail"
  shows "lastQuote (ident @ [dq] @ tail) = Some (length ident)"
proof -
  have "takeWhile (\<lambda>c. c \<noteq> dq) (rev tail @ dq # rev ident) = rev tail"
    using assms by (simp add: takeWhile_append)
  then show ?thesis by (simp add: lastQuote_def)
qed

lemma matchModule_declaration:
  assumes "\<forall>c \<in> set ident. \<not> isLineTerminator c"
      and "dq \<notin> set (takeWhile (\<lambda>c. \<not> isLineTerminator c) rest)"
  shows "matchModule (declarePrefix @ ident @ [dq] @ rest)
           = Some (ident, length declarePrefix + length ident + 1)"
proof -
  have "takeWhile (\<lambda>c. \<not> isLineTerminator c) (ident @ [dq] @ rest)
      = ident @ [dq] @ takeWhile (\<lambda>c. \<not> isLineTerminator c) rest"
    using assms(1) dq_not_terminator by (simp add: takeWhile_append)
  moreover have "lastQuote (ident @ [dq] @ takeWhile (\<lambda>c. \<not> isLineTerminator c) rest)
      = Some (length ident)"
    using assms(2) by (rule lastQuote_closing)
  ultimately show ?thesis
    by (simp add: matchModule_def)
qed

lemma moduleNames_declaration:
  assumes "\<forall>c \<in> set ident. \<not> isLineTerminator c"
      and "dq \<notin> set (takeWhile (\<lambda>c. \<not> isLineTerminator c) rest)"
  shows "moduleNames (declarePrefix @ ident @ [dq] @ rest) = ident # moduleNames rest"
proof -
  obtain c cs where cs: "declarePrefix @ ident @ [dq] @ rest = c # cs"
    by (cases "declarePrefix @ ident @ [dq] @ rest") (simp_all add: declarePrefix_def)
  have "matchModule (c # cs) = Some (ident, length declarePrefix + length ident + 1)"
    using matchModule_declaration [OF assms] unfolding cs .
  then have "moduleNames (c # cs)
      = ident # moduleNames (drop (length declarePrefix + length ident + 1) (c # cs))"
    by (simp add: moduleNames.simps(2))
  then show ?thesis
    unfolding cs [symmetric] by simp
qed

lemma moduleNames_skip: "c \<noteq> CHR ''d'' \<Longrightarrow> moduleNames (c # cs) = moduleNames cs"
  by (simp add: moduleNames.simps(2) matchModule_def declarePrefix_def)

lemma moduleNames_declareLine:
  assumes "\<forall>c \<in> set ident. \<not> isLineTerminator c"
  shows "moduleNames (declareLine ident @ further) = ident # moduleNames further"
proof -
  have q: "dq \<notin> set (takeWhile (\<lambda>c. \<not> isLineTerminator c) ('' { }'' @ [LF] @ further))"
    by (simp add: isLineTerminator_def dq_def LF_def)
  have "declareLine ident @ further = declarePrefix @ ident @ [dq] @ ('' { }'' @ [LF] @ further)"
    by (simp add: declareLine_def declarePrefix_def dq_def)
  then have "moduleNames (declareLine ident @ further) = ident # moduleNames ('' { }'' @ [LF] @ further)"
    using moduleNames_declaration [OF assms q] by simp
  also have "moduleNames ('' { }'' @ [LF] @ further) = moduleNames further"
    by (simp add: moduleNames_skip LF_def)
  finally show ?thesis .
qed

lemma moduleNames_declareLines:
  assumes "\<forall>ident \<in> set idents. \<forall>c \<in> set ident. \<not> isLineTerminator c"
  shows "moduleNames (concat (map declareLine idents)) = idents"
  using assms
  by (induction idents) (simp_all add: moduleNames_declareLine moduleNames.simps(1))

subsection \<open>The replacement\<close>

text \<open>A pattern without a character class has one atom for each of its characters.\<close>

lemma compileFrom_length:
  "compileFrom None src = Some pat \<Longrightarrow> CHR ''['' \<notin> set src \<Longrightarrow> length pat = length src"
  by (induction src arbitrary: pat) (auto split: if_splits)

lemma compilePattern_length:
  "compilePattern src = Some pat \<Longrightarrow> CHR ''['' \<notin> set src \<Longrightarrow> length pat = length src"
  unfolding compilePattern_def by (rule compileFrom_length)

lemma compileFrom_matches_itself:
  "compileFrom None src = Some pat \<Longrightarrow> CHR ''['' \<notin> set src \<Longrightarrow>
     \<forall>c \<in> set src. \<not> isLineTerminator c \<Longrightarrow> matchesAt pat (src @ tail)"
  by (induction src arbitrary: pat) (auto split: if_splits)

lemma matchesAt_itself:
  "compilePattern src = Some pat \<Longrightarrow> CHR ''['' \<notin> set src \<Longrightarrow>
     \<forall>c \<in> set src. \<not> isLineTerminator c \<Longrightarrow> matchesAt pat (src @ tail)"
  unfolding compilePattern_def by (rule compileFrom_matches_itself)

lemma compilePattern_quoted:
  assumes "compilePattern ([dq] @ ident @ [dq]) = Some pat"
  shows "\<exists>pat'. pat = Lit dq # pat'"
  using assms
  by (auto simp: compilePattern_def dq_def syntaxCharacter_def backslash_def split: if_splits)

lemma replaceLoop_skip:
  assumes "dq \<notin> set pre"
  shows "replaceLoop (Lit dq # pat') template preceding (pre @ s)
           = pre @ replaceLoop (Lit dq # pat') template (preceding @ pre) s"
  using assms
proof (induction pre arbitrary: preceding)
  case Nil
  show ?case by simp
next
  case (Cons c pre)
  then have "c \<noteq> dq" by auto
  then have "replaceLoop (Lit dq # pat') template preceding ((c # pre) @ s)
      = c # replaceLoop (Lit dq # pat') template (preceding @ [c]) (pre @ s)"
    by (subst replaceLoop.simps) auto
  with Cons show ?case by simp
qed

lemma replaceLoop_match:
  assumes "matchesAt pat (src @ tail)" and "length pat = length src" and "src \<noteq> []"
  shows "replaceLoop pat template preceding (src @ tail)
           = getSubstitution src preceding tail template
             @ replaceLoop pat template (preceding @ src) tail"
proof -
  have "pat \<noteq> []" using assms(2,3) by auto
  then show ?thesis
    using assms(1,2) by (subst replaceLoop.simps) simp
qed

lemma replaceLoop_no_match:
  "\<forall>t. suffix t s \<longrightarrow> \<not> matchesAt pat t \<Longrightarrow> replaceLoop pat template preceding s = s"
proof (induction s arbitrary: preceding)
  case Nil
  then have "\<not> matchesAt pat []" by (simp add: suffix_def)
  then show ?case by (subst replaceLoop.simps) simp
next
  case (Cons c s)
  have "\<not> matchesAt pat (c # s)" using Cons.prems by (simp add: suffix_def)
  moreover have "\<forall>t. suffix t s \<longrightarrow> \<not> matchesAt pat t"
    using Cons.prems by (meson suffix_Cons)
  ultimately show ?case
    using Cons.IH by (subst replaceLoop.simps) simp
qed

lemma getSubstitution_plain:
  "CHR ''$'' \<notin> set template \<Longrightarrow> getSubstitution matched preceding following template = template"
  by (induction matched preceding following template rule: getSubstitution.induct) auto

lemma joinWith_blocks:
  "joinWith sep (x # xs) = x @ concat (map (\<lambda>y. sep @ y) xs)"
  by (induction sep "x # xs" arbitrary: x xs rule: joinWith.induct) auto

lemma rewriteModule_declaration:
  assumes "matchingKeys cfg ident = key # aliases"
      and "compilePattern ([dq] @ ident @ [dq]) = Some pat"
      and "\<forall>c \<in> set ident. \<not> isLineTerminator c"
      and "CHR ''$'' \<notin> set (getModuleDeclareName cfg key)"
      and "CHR ''['' \<notin> set ident"
  shows "rewriteModule other cfg (declarePrefix @ ident @ [dq] @ rest) ident =
           Inr (declarePrefix @ getModuleDeclareName cfg key @ [dq]
                @ replaceLoop pat ([dq] @ getModuleDeclareName cfg key @ [dq])
                    (declarePrefix @ ident @ [dq]) rest
                @ concat (map (\<lambda>alias. [LF] @ createAliasModule cfg (getModuleDeclareName cfg key) alias)
                            aliases))"
proof -
  let ?mdn = "getModuleDeclareName cfg key"
  let ?tmpl = "[dq] @ ?mdn @ [dq]"
  let ?src = "[dq] @ ident @ [dq]"
  let ?head = "''declare module ''"
  obtain pat' where pat: "pat = Lit dq # pat'"
    using compilePattern_quoted [OF assms(2)] by blast
  have split: "declarePrefix @ ident @ [dq] @ rest = ?head @ ?src @ rest"
    by (simp add: declarePrefix_def dq_def)
  have nt: "\<forall>c \<in> set ?src. \<not> isLineTerminator c"
    using assms(3) dq_not_terminator by simp
  have plain: "CHR ''$'' \<notin> set ?tmpl"
    using assms(4) by (simp add: dq_def)
  have nc: "CHR ''['' \<notin> set ?src"
    using assms(5) by (simp add: dq_def)
  have "replaceLoop pat ?tmpl [] (?head @ ?src @ rest)
      = ?head @ replaceLoop pat ?tmpl ([] @ ?head) (?src @ rest)"
    unfolding pat by (rule replaceLoop_skip) (simp add: dq_def)
  also have "replaceLoop pat ?tmpl ([] @ ?head) (?src @ rest)
      = getSubstitution ?src ([] @ ?head) rest ?tmpl @ replaceLoop pat ?tmpl (([] @ ?head) @ ?src) rest"
    by (rule replaceLoop_match)
      (use matchesAt_itself [OF assms(2) nc nt] compilePattern_length [OF assms(2) nc] in simp_all)
  also have "getSubstitution ?src ([] @ ?head) rest ?tmpl = ?tmpl"
    using plain by (rule getSubstitution_plain)
  finally have r: "replaceLoop pat ?tmpl [] (declarePrefix @ ident @ [dq] @ rest)
      = declarePrefix @ ?mdn @ [dq] @ replaceLoop pat ?tmpl (declarePrefix @ ident @ [dq]) rest"
    unfolding split by (simp add: declarePrefix_def dq_def)
  have e: "exposeNameOf cfg ident = key" and a: "aliasesOf cfg ident = aliases"
    using assms(1) by (simp_all add: exposeNameOf_def aliasesOf_def)
  show ?thesis
    unfolding rewriteModule_def Let_def e a replaceRegExp_def assms(2)
    using r by (simp add: joinWith_blocks o_def)
qed

subsection \<open>The order of the keys\<close>

lemma defineProperty_fresh:
  "k \<notin> fst ` set props \<Longrightarrow> defineProperty props (k, v) = props @ [(k, v)]"
  by (induction props) auto

lemma foldl_defineProperty_distinct:
  "distinct (map fst written) \<Longrightarrow> fst ` set props \<inter> fst ` set written = {} \<Longrightarrow>
     foldl defineProperty props written = props @ written"
proof (induction written arbitrary: props)
  case Nil
  show ?case by simp
next
  case (Cons e written)
  obtain k v where e: "e = (k, v)" by (cases e)
  have f: "defineProperty props (k, v) = props @ [(k, v)]"
    using Cons.prems(2) by (intro defineProperty_fresh) (auto simp: e)
  have "foldl defineProperty (props @ [(k, v)]) written = (props @ [(k, v)]) @ written"
    using Cons.prems by (intro Cons.IH) (auto simp: e)
  then show ?case by (simp add: e f)
qed

lemma ownProperties_distinct: "distinct (map fst written) \<Longrightarrow> ownProperties written = written"
  using foldl_defineProperty_distinct [of written "[]"] by (simp add: ownProperties_def)

lemma map_fst_insort_key:
  "map fst (insort_key (\<lambda>e. f (fst e)) e es) = insort_key f (fst e) (map fst es)"
  by (induction es) auto

lemma map_fst_sort_key:
  "map fst (sort_key (\<lambda>e. f (fst e)) es) = sort_key f (map fst es)"
  by (induction es) (simp_all add: map_fst_insort_key)

lemma compileKeys_loadManifest:
  assumes "distinct (map fst written)"
  shows "compileKeys (loadManifest nm written) =
           sort_key indexValue (filter isArrayIndex (map fst written))
           @ filter (\<lambda>k. \<not> isArrayIndex k) (map fst written)"
  by (simp add: compileKeys_def loadManifest_def ownPropertyOrder_def
        ownProperties_distinct [OF assms] map_fst_sort_key filter_map o_def)

lemma exposes_loadManifest_plain:
  assumes "distinct (map fst written)" and "\<forall>k \<in> fst ` set written. \<not> isArrayIndex k"
  shows "exposes (loadManifest nm written) = written"
proof -
  have "filter (\<lambda>e. isArrayIndex (fst e)) written = []"
    using assms(2) by (auto simp: filter_empty_conv)
  moreover have "filter (\<lambda>e. \<not> isArrayIndex (fst e)) written = written"
    using assms(2) by (auto simp: filter_id_conv)
  ultimately show ?thesis
    by (simp add: loadManifest_def ownPropertyOrder_def ownProperties_distinct [OF assms(1)])
qed

lemma map_of_earlier:
  assumes "distinct (map fst (pre @ (k, v) # post))"
      and "k' \<in> fst ` set pre"
      and "map_of (pre @ (k, v) # post) k' = Some src"
  shows "(k', src) \<in> set pre"
proof -
  from assms(2) obtain v' where m: "(k', v') \<in> set pre" by auto
  then have "(k', v') \<in> set (pre @ (k, v) # post)" by simp
  with assms(1) have "map_of (pre @ (k, v) # post) k' = Some v'"
    by (intro map_of_is_SomeI)
  with assms(3) m show ?thesis by simp
qed

subsection \<open>The output directory\<close>

lemma outputDirOf_resolves:
  assumes "truthy (getArg argv ''--outputDir'') \<or> found \<noteq> []"
  shows "\<exists>outputDir. outputDirOf cwd argv found = Inr outputDir"
proof (cases "truthy (getArg argv ''--outputDir'')")
  case True
  then show ?thesis
    by (cases "getArg argv ''--outputDir''") (simp_all add: outputDirOf_def)
next
  case False
  with assms obtain nodeModules others where "found = nodeModules # others"
    by (cases found) auto
  with False show ?thesis by (simp add: outputDirOf_def)
qed

section \<open>The claims\<close>

text \<open>
  The alias rule for an identifier that the pattern \<^verbatim>\<open>RegExp(`"${name}"`, 'g')\<close> reads
  as ordinary characters and dots.  Take a manifest in which the keys whose source path
  ends with the module identifier are \<open>key\<close>, the first in the manifest's order, and then
  \<open>aliases\<close>, and an emitted text that declares that one module.  The rewriter declares the
  module under the public name of \<open>key\<close>, followed by its emitted body (in which the quoted
  identifier, should it occur again, is replaced too, and which is unchanged when it does
  not occur), and appends for every alias, in order, a block \<^verbatim>\<open>declare module\<close> under the
  alias's own public name whose body is the single line \<^verbatim>\<open>export * from\<close> the public
  name of \<open>key\<close>.  The witness is the manifest of the specification's example.
\<close>

theorem alias_modules_synthesized:
  assumes "matchingKeys cfg ident = key # aliases"
      and "compilePattern ([dq] @ ident @ [dq]) = Some pat"
      and "\<forall>c \<in> set ident. \<not> isLineTerminator c"
      and "dq \<notin> set (takeWhile (\<lambda>c. \<not> isLineTerminator c) rest)"
      and "moduleNames rest = []"
      and "primary = getModuleDeclareName cfg key"
      and "CHR ''$'' \<notin> set primary"
      and "CHR ''['' \<notin> set ident"
  shows "rewriteTyping other cfg (declarePrefix @ ident @ [dq] @ rest) =
           Inr (declarePrefix @ primary @ [dq]
                @ replaceLoop pat ([dq] @ primary @ [dq]) (declarePrefix @ ident @ [dq]) rest
                @ concat (map (\<lambda>alias.
                     [LF, LF] @ indent 12 @ declarePrefix @ getModuleDeclareName cfg alias @ [dq] @ '' {''
                     @ [LF] @ indent 16 @ ''export * from '' @ [dq] @ primary @ [dq]
                     @ [LF] @ indent 12 @ ''}''
                     @ [LF] @ indent 8) aliases))
       \<and> ((\<forall>t. suffix t rest \<longrightarrow> \<not> matchesAt pat t) \<longrightarrow>
            replaceLoop pat ([dq] @ primary @ [dq]) (declarePrefix @ ident @ [dq]) rest = rest)"
proof
  have names: "moduleNames (declarePrefix @ ident @ [dq] @ rest) = [ident]"
    using moduleNames_declaration [OF assms(3,4)] assms(5) by simp
  from rewriteModule_declaration
    [OF assms(1,2,3) assms(7) [unfolded assms(6)] assms(8), of other rest]
  show "rewriteTyping other cfg (declarePrefix @ ident @ [dq] @ rest) =
           Inr (declarePrefix @ primary @ [dq]
                @ replaceLoop pat ([dq] @ primary @ [dq]) (declarePrefix @ ident @ [dq]) rest
                @ concat (map (\<lambda>alias.
                     [LF, LF] @ indent 12 @ declarePrefix @ getModuleDeclareName cfg alias @ [dq] @ '' {''
                     @ [LF] @ indent 16 @ ''export * from '' @ [dq] @ primary @ [dq]
                     @ [LF] @ indent 12 @ ''}''
                     @ [LF] @ indent 8) aliases))"
    unfolding rewriteTyping_def names assms(6)
    by (simp add: createAliasModule_def declarePrefix_def dq_def)
next
  show "(\<forall>t. suffix t rest \<longrightarrow> \<not> matchesAt pat t) \<longrightarrow>
      replaceLoop pat ([dq] @ primary @ [dq]) (declarePrefix @ ident @ [dq]) rest = rest"
    using replaceLoop_no_match by blast
qed

theorem alias_modules_synthesized_witness:
  \<open>rewriteTyping noOther exampleConfig exampleTyping =
     Inr (''declare module "app/Button" {'' @ [LF] @
          ''    export const Button: string;'' @ [LF] @ ''}'' @ [LF] @
          [LF, LF] @ indent 12 @ ''declare module "app/Btn" {'' @
          [LF] @ indent 16 @ ''export * from "app/Button"'' @
          [LF] @ indent 12 @ ''}'' @
          [LF] @ indent 8)\<close>
proof -
  let ?rest = "'' {'' @ [LF] @ ''    export const Button: string;'' @ [LF] @ ''}'' @ [LF]"
  let ?pat = "[Lit dq] @ map Lit ''src/Button'' @ [AnyChar] @ map Lit ''ts'' @ [Lit dq]"
  have k: "matchingKeys exampleConfig ''src/Button.ts'' = ''./Button'' # [''./Btn'']"
    by code_simp
  have p: "compilePattern ([dq] @ ''src/Button.ts'' @ [dq]) = Some ?pat"
    by code_simp
  have t: "\<forall>c \<in> set ''src/Button.ts''. \<not> isLineTerminator c"
    by code_simp
  have q: "dq \<notin> set (takeWhile (\<lambda>c. \<not> isLineTerminator c) ?rest)"
    by code_simp
  have m: "moduleNames ?rest = []"
    by code_simp
  have n: "''app/Button'' = getModuleDeclareName exampleConfig ''./Button''"
    by code_simp
  have d: "CHR ''$'' \<notin> set ''app/Button''"
    by simp
  have c: "CHR ''['' \<notin> set ''src/Button.ts''"
    by simp
  have b: "getModuleDeclareName exampleConfig ''./Btn'' = ''app/Btn''"
    by code_simp
  have r: "replaceLoop ?pat ([dq] @ ''app/Button'' @ [dq]) (declarePrefix @ ''src/Button.ts'' @ [dq]) ?rest
      = ?rest"
    by code_simp
  have e: "exampleTyping = declarePrefix @ ''src/Button.ts'' @ [dq] @ ?rest"
    by (simp add: exampleTyping_def declarePrefix_def dq_def)
  from alias_modules_synthesized [OF k p t q m n d c, of noOther, THEN conjunct1]
  show ?thesis
    unfolding e r by (simp add: b declarePrefix_def dq_def)
qed

text \<open>
  C1.  For every manifest with two or more keys whose source path ends with the module
  identifier, the primary module is to be declared under the public name of the first
  key, and every further key is to get a block of its own that re-exports the primary
  module.  The script does not escape the identifier when it builds its pattern, so for
  the identifier \<^verbatim>\<open>pages/[id]\<close> the brackets are a character class and the quoted
  identifier itself is not matched: whatever the regular expression engine does elsewhere,
  the emitted declaration keeps its internal name, no module \<^verbatim>\<open>app/Page\<close> is declared, and
  the alias block of \<^verbatim>\<open>app/Detail\<close> re-exports that undeclared module.
\<close>

theorem bracket_identifier_not_renamed:
  \<open>matchingKeys routeConfig ''pages/[id]'' = [''./Page'', ''./Detail'']
   \<and> moduleNames routeTyping = [''pages/[id]'']
   \<and> (\<forall>other. rewriteTyping other routeConfig routeTyping =
         Inr (routeTyping @
              [LF, LF] @ indent 12 @ ''declare module "app/Detail" {'' @
              [LF] @ indent 16 @ ''export * from "app/Page"'' @
              [LF] @ indent 12 @ ''}'' @
              [LF] @ indent 8))
   \<and> (case rewriteTyping noOther routeConfig routeTyping of
         Inl e \<Rightarrow> False
       | Inr text \<Rightarrow>
           occurrences ''declare module "app/Page"'' text = 0
         \<and> occurrences ''declare module "pages/[id]"'' text = 1
         \<and> occurrences ''export * from "app/Page"'' text = 1)\<close>
proof -
  have a: "matchingKeys routeConfig ''pages/[id]'' = [''./Page'', ''./Detail'']"
    by code_simp
  have b: "moduleNames routeTyping = [''pages/[id]'']"
    by code_simp
  have c: \<open>rewriteTyping other routeConfig routeTyping =
         Inr (routeTyping @
              [LF, LF] @ indent 12 @ ''declare module "app/Detail" {'' @
              [LF] @ indent 16 @ ''export * from "app/Page"'' @
              [LF] @ indent 12 @ ''}'' @
              [LF] @ indent 8)\<close> for other
    by code_simp
  have d: \<open>case rewriteTyping noOther routeConfig routeTyping of
         Inl e \<Rightarrow> False
       | Inr text \<Rightarrow>
           occurrences ''declare module "app/Page"'' text = 0
         \<and> occurrences ''declare module "pages/[id]"'' text = 1
         \<and> occurrences ''export * from "app/Page"'' text = 1\<close>
    by code_simp
  from a b c d show ?thesis by blast
qed

text \<open>
  C2, as the code has it.  The claim says that a declaration file published before the run
  is still there after a skipped emission.  The script removes that file before it calls
  the engine (lines 69 to 71), so after a skipped emission the file is gone: the sample
  run below exits with status 0 and leaves no \<^verbatim>\<open>app.d.ts\<close>.
\<close>

theorem skipped_emission_removes_old_file:
  \<open>tsEngine skipWorld = skipEngine
   \<and> fsys skipWorld ''/proj/out/app.d.ts'' = Some (FileE ''declare module "app/Button" { }'')
   \<and> exitCode (main skipWorld) = 0
   \<and> fsAfter (main skipWorld) ''/proj/out/app.d.ts'' = None\<close>
proof -
  have a: "tsEngine skipWorld = skipEngine" by (simp add: skipWorld_def)
  have b: \<open>fsys skipWorld ''/proj/out/app.d.ts'' = Some (FileE ''declare module "app/Button" { }'')\<close>
    by (simp add: skipWorld_def publishedFiles_def)
  have c: "exitCode (main skipWorld) = 0" by code_simp
  have d: "fsAfter (main skipWorld) ''/proj/out/app.d.ts'' = None" by code_simp
  from a b c d show ?thesis by blast
qed

text \<open>
  C2, amended.  When the engine reports a skipped emission, the process exits with status
  0, prints nothing on the standard error channel, and writes no file after the engine has
  returned: the file system it leaves is the one the engine left, which the engine received
  with the old declaration file already removed.  The hypotheses say that the run reaches
  the engine: the output directory is resolved, the manifest is found and loaded, and the
  path of the declaration file is not a directory.
\<close>

theorem skipped_emission_exits_0:
  assumes "outputDirOf (procCwd w) (procArgv w) (findNodeModules w (argvAt (procArgv w) 1)) = Inr outputDir"
      and "findFederationConfig (procCwd w) ''./'' (cwdEntries w) = Some p"
      and "requireConfig w p = Some cfg"
      and "outFile = outFileOf (procCwd w) outputDir cfg"
      and "fsys w outFile \<noteq> Some DirE"
      and "tsEngine w (compileFiles cfg) outFile ((fsys w)(outFile := None))
             = EngineReturns True diagnostics fs2"
  shows "exitCode (main w) = 0
       \<and> stderr (main w) = []
       \<and> stdout (main w) = (''Using config file: '' @ p) # map reportDiagnostic diagnostics
       \<and> fsAfter (main w) = fs2"
proof -
  have r: "removeOld (fsys w) outFile = Inr ((fsys w)(outFile := None))"
    using assms(5) by (simp add: removeOld_file)
  note m = main_reaches [OF assms(1,2,3), folded assms(4)]
  from tryBlock_skipped [OF r assms(6), of outputDir] show ?thesis
    by (simp add: m)
qed

theorem skipped_emission_exits_0_witness:
  "exitCode (main skipWorld) = 0
   \<and> stderr (main skipWorld) = []
   \<and> fsAfter (main skipWorld) = publishedFiles(''/proj/out/app.d.ts'' := None)"
proof -
  have e: "tsEngine skipWorld (compileFiles exampleConfig) ''/proj/out/app.d.ts''
      ((fsys skipWorld)(''/proj/out/app.d.ts'' := None))
      = EngineReturns True [] ((fsys skipWorld)(''/proj/out/app.d.ts'' := None))"
    by (simp add: skipWorld_def skipEngine_def)
  have f: "fsys skipWorld = publishedFiles" by (simp add: skipWorld_def)
  from skipped_emission_exits_0
    [OF skipWorld_outputDir skipWorld_manifest skipWorld_config skipWorld_outFile
        skipWorld_old_file e]
  show ?thesis by (simp add: f)
qed

text \<open>
  C3.  In a directory with no entry named \<^verbatim>\<open>federation.config.json\<close>, the search goes
  on in the first queued directory only (the first directory whose path does not contain
  \<^verbatim>\<open>node_modules\<close>): its result is the result of the search in that directory, whatever
  the entries after it are.  So a manifest that lies only in a later directory is not
  found.
\<close>

theorem search_first_directory_only:
  assumes "''federation.config.json'' \<notin> fst ` set (skipped @ (d, Dir sub) # later)"
      and "\<forall>e \<in> set skipped. \<not> queued base e"
      and "\<not> includes_str (path_join [base, d]) ''node_modules''"
  shows "findFederationConfig cwd base (skipped @ (d, Dir sub) # later)
           = findFederationConfig cwd (path_join [base, d]) sub"
proof -
  have "queued base (d, Dir sub)"
    using assms(3) by (simp add: queued_def)
  with assms(2) have f: "filter (queued base) (skipped @ (d, Dir sub) # later)
      = (d, Dir sub) # filter (queued base) later"
    by (rule filter_skipped)
  show ?thesis
    unfolding search_head_of_queue [OF assms(1)] f by simp
qed

theorem search_first_directory_only_witness:
  "findFederationConfig ''/proj'' ''./''
     [(''README.md'', File), (''a'', Dir []), (''b'', Dir [(''federation.config.json'', File)])]
   = None"
proof -
  have h1: "''federation.config.json'' \<notin>
      fst ` set ([(''README.md'', File)] @ (''a'', Dir []) #
                 [(''b'', Dir [(''federation.config.json'', File)])])"
    by simp
  have h2: "\<forall>e \<in> set [(''README.md'', File)]. \<not> queued ''./'' e"
    by (simp add: queued_def)
  have h3: "\<not> includes_str (path_join [''./'', ''a'']) ''node_modules''"
    by code_simp
  have "findFederationConfig ''/proj'' (path_join [''./'', ''a'']) [] = None"
    by (simp add: findFederationConfig.simps)
  with search_first_directory_only [OF h1 h2 h3, of "''/proj''"] show ?thesis
    by simp
qed

text \<open>
  C4, as the code has it.  The claim says that duplicate identifiers are removed before
  the rewrite.  The \<^verbatim>\<open>exec\<close> loop pushes the capture of every match and nothing removes
  duplicates: for a text that declares \<^verbatim>\<open>src/Button.ts\<close> twice the list holds it twice,
  the rewrite runs twice, and the alias block of \<^verbatim>\<open>app/Btn\<close> is appended twice.
\<close>

theorem duplicate_declarations_rewritten_twice:
  \<open>moduleNames twiceDeclared = [''src/Button.ts'', ''src/Button.ts'']
   \<and> \<not> distinct (moduleNames twiceDeclared)
   \<and> (case rewriteTyping noOther exampleConfig twiceDeclared of
         Inl e \<Rightarrow> 0
       | Inr text \<Rightarrow> occurrences ''declare module "app/Btn"'' text) = 2\<close>
  by code_simp

text \<open>
  C4, amended.  The rewriter processes the identifier of every \<^verbatim>\<open>declare module\<close>
  occurrence, in order of appearance and once per occurrence; duplicates are kept, so an
  identifier that is declared twice has its rewrite, the synthesis of alias blocks
  included, performed twice.
\<close>

theorem module_scan_keeps_duplicates:
  assumes "\<forall>ident \<in> set idents. \<forall>c \<in> set ident. \<not> isLineTerminator c"
  shows "moduleNames (concat (map declareLine idents)) = idents
       \<and> rewriteTyping other cfg (concat (map declareLine idents))
           = forEachModule other cfg (concat (map declareLine idents)) idents
       \<and> forEachModule other cfg typing [ident, ident]
           = (case rewriteModule other cfg typing ident of
                Inl e \<Rightarrow> Inl e
              | Inr typing' \<Rightarrow> rewriteModule other cfg typing' ident)"
  using moduleNames_declareLines [OF assms]
  by (simp add: rewriteTyping_def split: sum.splits)

theorem module_scan_keeps_duplicates_witness:
  "moduleNames (declareLine ''src/Button.ts'' @ declareLine ''src/Button.ts'')
     = [''src/Button.ts'', ''src/Button.ts'']"
proof -
  have "\<forall>ident \<in> set [''src/Button.ts'', ''src/Button.ts'']. \<forall>c \<in> set ident. \<not> isLineTerminator c"
    by code_simp
  from module_scan_keeps_duplicates [OF this] show ?thesis by simp
qed

text \<open>
  C5, as the code has it.  The claim takes the first matching key in the order of the
  manifest.  The keys are filtered in the order \<^verbatim>\<open>Object.keys\<close> enumerates them, which
  puts array indices first: in a manifest that writes \<^verbatim>\<open>./B\<close> and then \<^verbatim>\<open>7\<close>, both for
  \<^verbatim>\<open>src/Button\<close>, the expose name is \<^verbatim>\<open>7\<close>, the key written second.
\<close>

theorem numbered_key_chosen_first:
  "map fst numberedManifest = [''./B'', ''7'']
   \<and> endsWith ''src/Button'' ''src/Button''
   \<and> compileKeys (loadManifest ''app'' numberedManifest) = [''7'', ''./B'']
   \<and> exposeNameOf (loadManifest ''app'' numberedManifest) ''src/Button'' = ''7''"
  by code_simp

text \<open>
  C5, amended.  The expose name of a module identifier is the first key whose source path
  ends with the identifier (the path need not be equal to it), in the order in which
  \<^verbatim>\<open>Object.keys\<close> enumerates the keys of the manifest: the keys that are array indices in
  ascending numeric order, then the other keys in the order of the manifest.  For a
  manifest without such keys this is the first matching key in the order of the manifest.
  When no key has such a path the expose name is the identifier.
\<close>

theorem exposeName_first_in_key_order:
  "((\<forall>key \<in> set (compileKeys cfg). \<forall>src.
        map_of (exposes cfg) key = Some src \<longrightarrow> \<not> endsWith src modName)
      \<longrightarrow> exposeNameOf cfg modName = modName)
   \<and> (compileKeys cfg = earlier @ key # later
        \<and> (\<forall>k \<in> set earlier. \<forall>src.
              map_of (exposes cfg) k = Some src \<longrightarrow> \<not> endsWith src modName)
        \<and> map_of (exposes cfg) key = Some source \<and> endsWith source modName
      \<longrightarrow> exposeNameOf cfg modName = key)
   \<and> (distinct (map fst written)
      \<longrightarrow> compileKeys (loadManifest nm written) =
            sort_key indexValue (filter isArrayIndex (map fst written))
            @ filter (\<lambda>k. \<not> isArrayIndex k) (map fst written))
   \<and> (distinct (map fst written)
        \<and> (\<forall>k \<in> fst ` set written. \<not> isArrayIndex k)
        \<and> written = pre @ (first, path) # post
        \<and> (\<forall>e \<in> set pre. \<not> endsWith (snd e) modName)
        \<and> endsWith path modName
      \<longrightarrow> exposeNameOf (loadManifest nm written) modName = first)"
proof -
  have none: "exposeNameOf c modName = modName"
    if "\<forall>key \<in> set (compileKeys c). \<forall>src.
      map_of (exposes c) key = Some src \<longrightarrow> \<not> endsWith src modName" for c
  proof -
    from that have "matchingKeys c modName = []"
      by (auto simp: matchingKeys_def filter_empty_conv split: option.splits)
    then show ?thesis by (simp add: exposeNameOf_def)
  qed
  have some: "exposeNameOf c modName = k"
    if a: "compileKeys c = ks @ k # ks'"
      "\<forall>k \<in> set ks. \<forall>src. map_of (exposes c) k = Some src \<longrightarrow> \<not> endsWith src modName"
      "map_of (exposes c) k = Some s" "endsWith s modName" for c ks k ks' s
  proof -
    let ?P = "\<lambda>key. case map_of (exposes c) key of
                       Some src \<Rightarrow> endsWith src modName
                     | None \<Rightarrow> False"
    from a(2) have "filter ?P ks = []"
      by (auto simp: filter_empty_conv split: option.splits)
    moreover from a(3,4) have "?P k" by simp
    ultimately have "matchingKeys c modName = k # filter ?P ks'"
      using a(1) by (simp add: matchingKeys_def)
    then show ?thesis by (simp add: exposeNameOf_def)
  qed
  have written_order: "exposeNameOf (loadManifest nm written) modName = first"
    if b: "distinct (map fst written)" "\<forall>k \<in> fst ` set written. \<not> isArrayIndex k"
      "written = pre @ (first, path) # post" "\<forall>e \<in> set pre. \<not> endsWith (snd e) modName"
      "endsWith path modName"
  proof -
    have e: "exposes (loadManifest nm written) = written"
      using b(1,2) by (rule exposes_loadManifest_plain)
    have k: "compileKeys (loadManifest nm written) = map fst pre @ first # map fst post"
      unfolding compileKeys_def e unfolding b(3) by simp
    have d: "distinct (map fst (pre @ (first, path) # post))"
      using b(1,3) by simp
    have n: "\<forall>k \<in> set (map fst pre). \<forall>src.
        map_of (exposes (loadManifest nm written)) k = Some src \<longrightarrow> \<not> endsWith src modName"
    proof (intro ballI allI impI)
      fix k src
      assume kk: "k \<in> set (map fst pre)"
        and mm: "map_of (exposes (loadManifest nm written)) k = Some src"
      have k': "k \<in> fst ` set pre" using kk by simp
      have "map_of (pre @ (first, path) # post) k = Some src"
        using mm e by (simp only: b(3))
      with d k' have "(k, src) \<in> set pre"
        by (rule map_of_earlier)
      with b(4) show "\<not> endsWith src modName" by force
    qed
    have m: "map_of (exposes (loadManifest nm written)) first = Some path"
      unfolding e unfolding b(3) using d by (intro map_of_is_SomeI) simp_all
    from some [OF k n m b(5)] show ?thesis .
  qed
  show ?thesis
    using none [of cfg] some [of cfg earlier key later source] written_order
      compileKeys_loadManifest [of written nm]
    by blast
qed

theorem exposeName_first_in_key_order_witness:
  "exposeNameOf (loadManifest ''app'' (exposes exampleConfig)) ''Button.ts'' = ''./Button''
   \<and> exposeNameOf exampleConfig ''Card'' = ''Card''
   \<and> compileKeys (loadManifest ''app'' numberedManifest) = [''7'', ''./B'']"
proof -
  note t = exposeName_first_in_key_order
  have w: "exposes exampleConfig = [] @ (''./Button'', ''src/Button.ts'') # [(''./Btn'', ''src/Button.ts'')]"
    by (simp add: exampleConfig_def)
  have d: "distinct (map fst (exposes exampleConfig))"
    by (simp add: exampleConfig_def)
  have i: "\<forall>k \<in> fst ` set (exposes exampleConfig). \<not> isArrayIndex k"
    by (simp add: exampleConfig_def isArrayIndex_def)
  have e: "endsWith ''src/Button.ts'' ''Button.ts''"
    by code_simp
  have n: "\<forall>key \<in> set (compileKeys exampleConfig). \<forall>src.
      map_of (exposes exampleConfig) key = Some src \<longrightarrow> \<not> endsWith src ''Card''"
    by (simp add: compileKeys_def exampleConfig_def endsWith_def suffix_to_prefix)
  have d': "distinct (map fst numberedManifest)"
    by (simp add: numberedManifest_def)
  have s: "sort_key indexValue (filter isArrayIndex (map fst numberedManifest))
      @ filter (\<lambda>k. \<not> isArrayIndex k) (map fst numberedManifest) = [''7'', ''./B'']"
    by code_simp
  from t [where cfg = exampleConfig and modName = "''Card''", THEN conjunct1] n
  have a: "exposeNameOf exampleConfig ''Card'' = ''Card''" by blast
  from t [where written = "exposes exampleConfig" and modName = "''Button.ts''"
      and pre = "[]" and first = "''./Button''" and path = "''src/Button.ts''"
      and post = "[(''./Btn'', ''src/Button.ts'')]" and nm = "''app''",
      THEN conjunct2, THEN conjunct2, THEN conjunct2] w d i e
  have b: "exposeNameOf (loadManifest ''app'' (exposes exampleConfig)) ''Button.ts'' = ''./Button''"
    by simp
  from t [where written = numberedManifest and nm = "''app''",
      THEN conjunct2, THEN conjunct2, THEN conjunct1] d' s
  have c: "compileKeys (loadManifest ''app'' numberedManifest) = [''7'', ''./B'']"
    by simp
  from a b c show ?thesis by blast
qed

text \<open>
  C6.  The index step appends the line \<^verbatim>\<open>export * from './<name>';\<close> only when the
  contents of \<^verbatim>\<open>index.d.ts\<close> do not contain it as a substring, creates the file with that
  line when it does not exist, and is idempotent.  A completed run leaves the line in the
  index, and a run that starts with the line in the index, for the same manifest, leaves
  the index as it is: the second of two runs adds no line.  For the last part the
  declaration file is not the index itself and the engine does not write the index.
\<close>

theorem index_update_idempotent:
  assumes "indexPath = path_resolve (procCwd w) [outputDir, ''index.d.ts'']"
  shows "(fs indexPath = Some (FileE contents) \<and> includes_str contents (importStatement cfg)
            \<longrightarrow> indexStep (procCwd w) cfg outputDir fs = ([''updating index.d.ts file''], Inr fs))
       \<and> (fs indexPath = Some (FileE contents) \<and> \<not> includes_str contents (importStatement cfg)
            \<longrightarrow> snd (indexStep (procCwd w) cfg outputDir fs)
                  = writeFileSync fs indexPath (contents @ importStatement cfg @ [LF]))
       \<and> (fs indexPath = None
            \<longrightarrow> snd (indexStep (procCwd w) cfg outputDir fs)
                  = writeFileSync fs indexPath (importStatement cfg @ [LF]))
       \<and> (indexStep (procCwd w) cfg outputDir fs = (lg, Inr fs')
            \<longrightarrow> indexStep (procCwd w) cfg outputDir fs' = ([''updating index.d.ts file''], Inr fs'))
       \<and> (tryBlock w outputDir cfg outFile = (Completed, lg1, fs1)
            \<longrightarrow> (\<exists>c. fs1 indexPath = Some (FileE c) \<and> includes_str c (importStatement cfg)))
       \<and> (outputDirOf (procCwd w) (procArgv w) (findNodeModules w (argvAt (procArgv w) 1))
               = Inr outputDir
          \<and> (\<forall>p cfg'. requireConfig w p = Some cfg' \<longrightarrow> cfg' = cfg)
          \<and> outFileOf (procCwd w) outputDir cfg \<noteq> indexPath
          \<and> (\<forall>roots out fs. out \<noteq> indexPath \<longrightarrow>
                engineFs (tsEngine w roots out fs) indexPath = fs indexPath)
          \<and> fsys w indexPath = Some (FileE contents)
          \<and> includes_str contents (importStatement cfg)
            \<longrightarrow> fsAfter (main w) indexPath = Some (FileE contents))"
proof (intro conjI impI)
  assume "fs indexPath = Some (FileE contents) \<and> includes_str contents (importStatement cfg)"
  then show "indexStep (procCwd w) cfg outputDir fs = ([''updating index.d.ts file''], Inr fs)"
    unfolding assms by (simp add: indexStep_present)
next
  assume "fs indexPath = Some (FileE contents) \<and> \<not> includes_str contents (importStatement cfg)"
  then show "snd (indexStep (procCwd w) cfg outputDir fs)
      = writeFileSync fs indexPath (contents @ importStatement cfg @ [LF])"
    unfolding assms by (simp add: indexStep_def Let_def existsSync_def readFileSync_def)
next
  assume "fs indexPath = None"
  then show "snd (indexStep (procCwd w) cfg outputDir fs)
      = writeFileSync fs indexPath (importStatement cfg @ [LF])"
    unfolding assms by (simp add: indexStep_def Let_def existsSync_def)
next
  assume "indexStep (procCwd w) cfg outputDir fs = (lg, Inr fs')"
  from indexStep_result [OF this] obtain c where
    "fs' (path_resolve (procCwd w) [outputDir, ''index.d.ts'']) = Some (FileE c)"
    and "includes_str c (importStatement cfg)" by blast
  then show "indexStep (procCwd w) cfg outputDir fs' = ([''updating index.d.ts file''], Inr fs')"
    by (rule indexStep_present)
next
  assume "tryBlock w outputDir cfg outFile = (Completed, lg1, fs1)"
  then show "\<exists>c. fs1 indexPath = Some (FileE c) \<and> includes_str c (importStatement cfg)"
    unfolding assms by (rule tryBlock_completed_index)
next
  assume a: "outputDirOf (procCwd w) (procArgv w) (findNodeModules w (argvAt (procArgv w) 1))
               = Inr outputDir
          \<and> (\<forall>p cfg'. requireConfig w p = Some cfg' \<longrightarrow> cfg' = cfg)
          \<and> outFileOf (procCwd w) outputDir cfg \<noteq> indexPath
          \<and> (\<forall>roots out fs. out \<noteq> indexPath \<longrightarrow>
                engineFs (tsEngine w roots out fs) indexPath = fs indexPath)
          \<and> fsys w indexPath = Some (FileE contents)
          \<and> includes_str contents (importStatement cfg)"
  show "fsAfter (main w) indexPath = Some (FileE contents)"
    unfolding assms
  proof (rule main_index_kept)
    show "outputDirOf (procCwd w) (procArgv w) (findNodeModules w (argvAt (procArgv w) 1))
        = Inr outputDir" using a by blast
    show "\<forall>p cfg'. requireConfig w p = Some cfg' \<longrightarrow> cfg' = cfg" using a by blast
    show "outFileOf (procCwd w) outputDir cfg \<noteq> path_resolve (procCwd w) [outputDir, ''index.d.ts'']"
      using a unfolding assms by blast
    show "\<forall>roots out fs. out \<noteq> path_resolve (procCwd w) [outputDir, ''index.d.ts''] \<longrightarrow>
        engineFs (tsEngine w roots out fs) (path_resolve (procCwd w) [outputDir, ''index.d.ts''])
          = fs (path_resolve (procCwd w) [outputDir, ''index.d.ts''])"
      using a unfolding assms by blast
    show "fsys w (path_resolve (procCwd w) [outputDir, ''index.d.ts'']) = Some (FileE contents)"
      using a unfolding assms by blast
    show "includes_str contents (importStatement cfg)" using a by blast
  qed
qed

theorem index_update_idempotent_witness:
  "fsAfter (main typesWorld) ''/proj/node_modules/@types/__federated_types/index.d.ts''
     = Some (FileE (''export * from '' @ [sq] @ ''./app'' @ [sq] @ '';'' @ [LF]))
   \<and> fsAfter (main secondWorld) ''/proj/node_modules/@types/__federated_types/index.d.ts''
     = Some (FileE (''export * from '' @ [sq] @ ''./app'' @ [sq] @ '';'' @ [LF]))"
proof -
  let ?idx = "''/proj/node_modules/@types/__federated_types/index.d.ts''"
  let ?line = "''export * from '' @ [sq] @ ''./app'' @ [sq] @ '';'' @ [LF]"
  have first: "fsAfter (main typesWorld) ?idx = Some (FileE ?line)"
    by code_simp
  have i: "?idx = path_resolve (procCwd secondWorld)
      [''/proj/node_modules/@types/__federated_types'', ''index.d.ts'']"
    by code_simp
  have o: "outputDirOf (procCwd secondWorld) (procArgv secondWorld)
      (findNodeModules secondWorld (argvAt (procArgv secondWorld) 1))
      = Inr ''/proj/node_modules/@types/__federated_types''"
    using typesWorld_outputDir by (simp add: secondWorld_def)
  have c: "\<forall>p cfg'. requireConfig secondWorld p = Some cfg' \<longrightarrow> cfg' = exampleConfig"
    by (simp add: secondWorld_def typesWorld_def)
  have n: "outFileOf (procCwd secondWorld) ''/proj/node_modules/@types/__federated_types''
      exampleConfig \<noteq> ?idx"
    by code_simp
  have e: "\<forall>roots out fs. out \<noteq> ?idx \<longrightarrow>
      engineFs (tsEngine secondWorld roots out fs) ?idx = fs ?idx"
    using emitEngine_frame by (simp add: secondWorld_def typesWorld_def)
  have f: "fsys secondWorld ?idx = Some (FileE ?line)"
    using first by (simp add: secondWorld_def)
  have s: "includes_str ?line (importStatement exampleConfig)"
    by code_simp
  from index_update_idempotent
    [OF i, where cfg = exampleConfig and contents = "?line",
      THEN conjunct2, THEN conjunct2, THEN conjunct2, THEN conjunct2, THEN conjunct2]
    o c n e f s
  have "fsAfter (main secondWorld) ?idx = Some (FileE ?line)" by blast
  with first show ?thesis by blast
qed

text \<open>
  C7, as the code has it.  The output directory is computed before the search (lines 17
  to 28).  With no value for \<^verbatim>\<open>--outputDir\<close> and no \<^verbatim>\<open>node_modules\<close> directory found,
  \<^verbatim>\<open>path.resolve\<close> throws there: in a tree without a manifest the process then exits
  with status 1, but what it prints is the exception, not \<^verbatim>\<open>Unable to find\<close>.
\<close>

theorem missing_manifest_startup_crash:
  "\<not> manifestIn (Dir (cwdEntries bareWorld))
   \<and> findFederationConfig (procCwd bareWorld) ''./'' (cwdEntries bareWorld) = None
   \<and> exitCode (main bareWorld) = 1
   \<and> stderr (main bareWorld) = [''Uncaught TypeError'']
   \<and> \<not> includes_str ''Uncaught TypeError'' ''Unable to find''"
  by code_simp

text \<open>
  C7, amended.  On a run that has a non-empty value for \<^verbatim>\<open>--outputDir\<close> or for which
  \<^verbatim>\<open>findNodeModules\<close> finds a directory, when the search finds no manifest (in particular
  when the tree holds none at any depth), the process exits with status 1 and its only
  line on the standard error channel contains \<^verbatim>\<open>Unable to find\<close>; no file is touched.
\<close>

theorem missing_manifest_exits_1:
  assumes "truthy (getArg (procArgv w) ''--outputDir'')
           \<or> findNodeModules w (argvAt (procArgv w) 1) \<noteq> []"
  shows "(\<not> manifestIn (Dir (cwdEntries w))
            \<longrightarrow> findFederationConfig (procCwd w) ''./'' (cwdEntries w) = None)
       \<and> (findFederationConfig (procCwd w) ''./'' (cwdEntries w) = None
            \<longrightarrow> exitCode (main w) = 1
              \<and> (\<exists>line \<in> set (stderr (main w)). includes_str line ''Unable to find'')
              \<and> stdout (main w) = []
              \<and> fsAfter (main w) = fsys w)"
proof (intro conjI impI)
  assume "\<not> manifestIn (Dir (cwdEntries w))"
  then show "findFederationConfig (procCwd w) ''./'' (cwdEntries w) = None"
    by (rule no_manifest_not_found)
next
  assume none: "findFederationConfig (procCwd w) ''./'' (cwdEntries w) = None"
  from outputDirOf_resolves [OF assms] obtain outputDir where
    o: "outputDirOf (procCwd w) (procArgv w) (findNodeModules w (argvAt (procArgv w) 1))
          = Inr outputDir" by blast
  have m: "main w = \<lparr>exitCode = 1, stdout = [],
      stderr = [''ERROR: Unable to find a federation.config.json file in this package''],
      fsAfter = fsys w\<rparr>"
    unfolding main_def o none by simp
  have i: "includes_str ''ERROR: Unable to find a federation.config.json file in this package''
      ''Unable to find''"
    by code_simp
  show "exitCode (main w) = 1" by (simp add: m)
  show "\<exists>line \<in> set (stderr (main w)). includes_str line ''Unable to find''"
    using i by (simp add: m)
  show "stdout (main w) = []" by (simp add: m)
  show "fsAfter (main w) = fsys w" by (simp add: m)
qed

theorem missing_manifest_exits_1_witness:
  "exitCode (main lostWorld) = 1
   \<and> (\<exists>line \<in> set (stderr (main lostWorld)). includes_str line ''Unable to find'')
   \<and> fsAfter (main lostWorld) = emptyDirs"
proof -
  have o: "truthy (getArg (procArgv lostWorld) ''--outputDir'')
      \<or> findNodeModules lostWorld (argvAt (procArgv lostWorld) 1) \<noteq> []"
    by code_simp
  have n: "findFederationConfig (procCwd lostWorld) ''./'' (cwdEntries lostWorld) = None"
    by code_simp
  have f: "fsys lostWorld = emptyDirs"
    by (simp add: lostWorld_def)
  from missing_manifest_exits_1 [OF o] n f show ?thesis
    by simp
qed



text \<open>
  C9.  On a run that reaches the emission, the file at the path of the declaration file is
  removed before the engine is called: the engine receives a file system without it, and
  the whole run is the run that starts without the file.  When
  the run then ends early, by an exception of the engine, by a skipped emission, or by the
  read of a file the engine did not write, the file system left is the one the engine left,
  so the file published before is gone unless the engine wrote it again.
\<close>

theorem old_declaration_removed_before_emission:
  assumes "outputDirOf (procCwd w) (procArgv w) (findNodeModules w (argvAt (procArgv w) 1)) = Inr outputDir"
      and "findFederationConfig (procCwd w) ''./'' (cwdEntries w) = Some p"
      and "requireConfig w p = Some cfg"
      and "outFile = outFileOf (procCwd w) outputDir cfg"
      and "fsys w outFile \<noteq> Some DirE"
      and "fs1 = (fsys w)(outFile := None)"
  shows "removeOld (fsys w) outFile = Inr fs1
       \<and> fs1 outFile = None
       \<and> main (w\<lparr>fsys := fs1\<rparr>) = main w
       \<and> (tsEngine w (compileFiles cfg) outFile fs1 = EngineThrows e fs2
            \<longrightarrow> exitCode (main w) = 1 \<and> fsAfter (main w) = fs2)
       \<and> (tsEngine w (compileFiles cfg) outFile fs1 = EngineReturns True diagnostics fs2
            \<longrightarrow> exitCode (main w) = 0 \<and> fsAfter (main w) = fs2)
       \<and> (tsEngine w (compileFiles cfg) outFile fs1 = EngineReturns False diagnostics fs2
            \<and> fs2 outFile = None
            \<longrightarrow> exitCode (main w) = 1 \<and> fsAfter (main w) = fs2)"
proof -
  have r: "removeOld (fsys w) outFile = Inr fs1"
    using assms(5,6) by (simp add: removeOld_file)
  note m = main_reaches [OF assms(1,2,3), folded assms(4)]
  show ?thesis
  proof (intro conjI impI)
    show "removeOld (fsys w) outFile = Inr fs1" by (rule r)
    show "fs1 outFile = None" by (simp add: assms(6))
    show "main (w\<lparr>fsys := fs1\<rparr>) = main w"
      unfolding assms(6) using assms(1,2,3,4,5) by (rule main_old_file_removed)
  next
    assume "tsEngine w (compileFiles cfg) outFile fs1 = EngineThrows e fs2"
    from tryBlock_engine_throws [OF r this, of outputDir]
    show "exitCode (main w) = 1" and "fsAfter (main w) = fs2"
      by (simp_all add: m)
  next
    assume "tsEngine w (compileFiles cfg) outFile fs1 = EngineReturns True diagnostics fs2"
    from tryBlock_skipped [OF r this, of outputDir]
    show "exitCode (main w) = 0" and "fsAfter (main w) = fs2"
      by (simp_all add: m)
  next
    assume "tsEngine w (compileFiles cfg) outFile fs1 = EngineReturns False diagnostics fs2
            \<and> fs2 outFile = None"
    then have a: "tsEngine w (compileFiles cfg) outFile fs1 = EngineReturns False diagnostics fs2"
      and b: "fs2 outFile = None" by simp_all
    from tryBlock_nothing_emitted [OF r a b, of outputDir]
    show "exitCode (main w) = 1" and "fsAfter (main w) = fs2"
      by (simp_all add: m)
  qed
qed

theorem old_declaration_removed_before_emission_witness:
  "fsys crashWorld ''/proj/out/app.d.ts'' \<noteq> None
   \<and> exitCode (main crashWorld) = 1
   \<and> fsAfter (main crashWorld) ''/proj/out/app.d.ts'' = None"
proof -
  have o: "outputDirOf (procCwd crashWorld) (procArgv crashWorld)
      (findNodeModules crashWorld (argvAt (procArgv crashWorld) 1)) = Inr ''/proj/out''"
    by code_simp
  have m: "findFederationConfig (procCwd crashWorld) ''./'' (cwdEntries crashWorld)
      = Some ''/proj/federation.config.json''"
    by code_simp
  have r: "requireConfig crashWorld ''/proj/federation.config.json'' = Some exampleConfig"
    by (simp add: crashWorld_def skipWorld_def)
  have f: "''/proj/out/app.d.ts'' = outFileOf (procCwd crashWorld) ''/proj/out'' exampleConfig"
    by code_simp
  have d: "fsys crashWorld ''/proj/out/app.d.ts'' \<noteq> Some DirE"
    by (simp add: crashWorld_def skipWorld_def publishedFiles_def)
  have e: "tsEngine crashWorld (compileFiles exampleConfig) ''/proj/out/app.d.ts''
      ((fsys crashWorld)(''/proj/out/app.d.ts'' := None))
      = EngineThrows (EngineError ''Debug Failure'')
          ((fsys crashWorld)(''/proj/out/app.d.ts'' := None))"
    by (simp add: crashWorld_def skipWorld_def crashEngine_def)
  have b: "fsys crashWorld ''/proj/out/app.d.ts'' \<noteq> None"
    by (simp add: crashWorld_def skipWorld_def publishedFiles_def)
  from old_declaration_removed_before_emission
    [OF o m r f d refl, of "EngineError ''Debug Failure''"
       "(fsys crashWorld)(''/proj/out/app.d.ts'' := None)"] e b
  show ?thesis by simp
qed



end
